theory Spec2Isabelle
  imports Complex_Main "HOL-Library.Product_Lexorder"
begin

section \<open>Document chunker (document-chunker.ts)\<close>

text \<open>
  JavaScript strings are modelled as HOL strings: one \<open>char\<close> stands for one UTF-16 code
  unit, \<open>length\<close> is \<open>String.length\<close>. The SHA-256 digest of Node's \<open>crypto\<close> module is
  a parameter \<open>sha256\<close> of every function that hashes.
\<close>

datatype FileType = Md | Ts | Tsx | Json

record Chunk =
  content :: string
  index :: nat
  section' :: "string option"
  tokenCount :: nat
  hash :: string

definition MAX_CHUNK_SIZE :: nat where
  "MAX_CHUNK_SIZE = 256 * 4"

definition OVERLAP_SIZE :: nat where
  "OVERLAP_SIZE = 25 * 4"

text \<open>\<open>s.slice(a, b)\<close> for \<open>0 \<le> a\<close> and \<open>0 \<le> b\<close>.\<close>

definition slice :: "string \<Rightarrow> nat \<Rightarrow> nat \<Rightarrow> string" where
  "slice s a b = take (b - a) (drop a s)"

definition createChunk :: "(string \<Rightarrow> string) \<Rightarrow> string \<Rightarrow> nat \<Rightarrow> string option \<Rightarrow> Chunk" where
  "createChunk sha256 c i sec =
     \<lparr>content = c, index = i, section' = sec, tokenCount = length c div 4, hash = sha256 c\<rparr>"

definition hashFile :: "(string \<Rightarrow> string) \<Rightarrow> string \<Rightarrow> string" where
  "hashFile sha256 doc = sha256 doc"

text \<open>
  The \<open>while\<close> loop of \<open>chunkPlainText\<close>, with its two variables \<open>start\<close> and
  \<open>chunkIndex\<close> as arguments. \<open>nextStart = end - OVERLAP_SIZE\<close> is negative in the source
  when \<open>end < OVERLAP_SIZE\<close>; the truncated difference on \<open>nat\<close> is then \<open>0\<close>, and the
  test \<open>nextStart \<le> start\<close> has the same outcome, since \<open>0 \<le> start\<close>.
\<close>

function chunkPlainText_loop :: "(string \<Rightarrow> string) \<Rightarrow> string \<Rightarrow> nat \<Rightarrow> nat \<Rightarrow> Chunk list" where
  "chunkPlainText_loop sha256 doc start chunkIndex =
     (if start < length doc then
        (let e = min (start + MAX_CHUNK_SIZE) (length doc);
             chunk = slice doc start e;
             nextStart = e - OVERLAP_SIZE
         in createChunk sha256 chunk chunkIndex None #
            (if nextStart \<le> start then []
             else chunkPlainText_loop sha256 doc nextStart (chunkIndex + 1)))
      else [])"
  by pat_completeness auto
termination
  by (relation "measure (\<lambda>(sha256, doc, start, chunkIndex). length doc - start)") auto

declare chunkPlainText_loop.simps [simp del]

definition chunkPlainText :: "(string \<Rightarrow> string) \<Rightarrow> string \<Rightarrow> Chunk list" where
  "chunkPlainText sha256 doc = chunkPlainText_loop sha256 doc 0 0"

definition chunkTypeScript :: "(string \<Rightarrow> string) \<Rightarrow> string \<Rightarrow> Chunk list" where
  "chunkTypeScript sha256 doc = chunkPlainText sha256 doc"

subsection \<open>Markdown\<close>

text \<open>
  The character classes of the regular expressions: \<open>\s\<close> (also what \<open>trim\<close> removes) and
  the line terminators, which \<open>.\<close> does not match and after which \<open>^\<close> matches under the
  \<open>m\<close> flag. Only the code units below 256 are listed.
\<close>

definition isLineTerminator :: "char \<Rightarrow> bool" where
  "isLineTerminator c = (c = CHR 0x0A \<or> c = CHR 0x0D)"

definition isWhiteSpace :: "char \<Rightarrow> bool" where
  "isWhiteSpace c =
     (c = CHR 0x09 \<or> c = CHR 0x0A \<or> c = CHR 0x0B \<or> c = CHR 0x0C \<or> c = CHR 0x0D \<or>
      c = CHR 0x20 \<or> c = CHR 0xA0)"

definition trim :: "string \<Rightarrow> string" where
  "trim s = rev (dropWhile isWhiteSpace (rev (dropWhile isWhiteSpace s)))"

text \<open>
  The length of the match of \<open>#{1,6}\s+.+$\<close> (flag \<open>m\<close>) at the start of \<open>s\<close>, where \<open>s\<close>
  begins at a line start. The run of \<open>#\<close> must be 1 to 6 long and be followed by white
  space. \<open>\s+\<close> is greedy: it takes the whole run of white space when a character follows
  it, and \<open>.+\<close> then runs to the end of that line. When the white space reaches the end of
  the input, \<open>\s+\<close> backtracks to the last position \<open>j \<ge> 1\<close> of the run that holds no line
  terminator, which \<open>.+\<close> takes.
\<close>

definition matchHeadingLine :: "string \<Rightarrow> nat option" where
  "matchHeadingLine s =
     (let h = length (takeWhile (\<lambda>c. c = CHR ''#'') s);
          ws = takeWhile isWhiteSpace (drop h s);
          rest = drop (h + length ws) s
      in if h < 1 \<or> 6 < h \<or> ws = [] then None
         else if rest \<noteq> [] then
           Some (h + length ws + length (takeWhile (\<lambda>c. \<not> isLineTerminator c) rest))
         else (case filter (\<lambda>j. \<not> isLineTerminator (ws ! j)) (rev [1..<length ws]) of
                 [] \<Rightarrow> None
               | j # _ \<Rightarrow> Some (h + j + 1)))"

lemma matchHeadingLine_pos: "matchHeadingLine s = Some n \<Longrightarrow> 0 < n"
  by (auto simp: matchHeadingLine_def Let_def split: if_splits list.splits)

text \<open>
  \<open>content.split(/^(#{1,6}\s+.+)$/gm)\<close>: the pieces between the matches, with the captured
  heading line after each piece. \<open>bol\<close> says whether the position is a line start,
  \<open>piece\<close> holds the current piece reversed.
\<close>

function splitHeadings :: "bool \<Rightarrow> string \<Rightarrow> string \<Rightarrow> string list" where
  "splitHeadings bol piece [] = [rev piece]"
| "splitHeadings bol piece (c # cs) =
     (case (if bol then matchHeadingLine (c # cs) else None) of
        Some n \<Rightarrow> rev piece # take n (c # cs) # splitHeadings False [] (drop n (c # cs))
      | None \<Rightarrow> splitHeadings (isLineTerminator c) (c # piece) cs)"
  by pat_completeness auto
termination
  by (relation "measure (\<lambda>(bol, piece, s). length s)")
     (auto split: if_splits dest: matchHeadingLine_pos)

text \<open>\<open>part.match(/^#{1,6}\s+/)\<close> and \<open>part.replace(/^#+\s+/, '')\<close>.\<close>

definition isHeading :: "string \<Rightarrow> bool" where
  "isHeading part =
     (let h = length (takeWhile (\<lambda>c. c = CHR ''#'') part)
      in 1 \<le> h \<and> h \<le> 6 \<and> h < length part \<and> isWhiteSpace (part ! h))"

definition stripHeadingMarker :: "string \<Rightarrow> string" where
  "stripHeadingMarker part =
     (let h = length (takeWhile (\<lambda>c. c = CHR ''#'') part)
      in if 1 \<le> h \<and> h < length part \<and> isWhiteSpace (part ! h)
         then dropWhile isWhiteSpace (drop h part) else part)"

text \<open>The \<open>for\<close> loop of \<open>chunkMarkdown\<close> and the statement after it.\<close>

fun chunkMarkdown_loop ::
  "(string \<Rightarrow> string) \<Rightarrow> string list \<Rightarrow> string \<Rightarrow> string \<Rightarrow> nat \<Rightarrow> Chunk list" where
  "chunkMarkdown_loop sha256 [] currentSection currentContent chunkIndex =
     (if trim currentContent \<noteq> []
      then [createChunk sha256 (trim currentContent) chunkIndex (Some currentSection)]
      else [])"
| "chunkMarkdown_loop sha256 (part # sections) currentSection currentContent chunkIndex =
     (if isHeading part then
        chunkMarkdown_loop sha256 sections (trim (stripHeadingMarker part)) currentContent chunkIndex
      else
        (let currentContent = currentContent @ part
         in if length currentContent > MAX_CHUNK_SIZE then
              createChunk sha256 (trim currentContent) chunkIndex (Some currentSection) #
              chunkMarkdown_loop sha256 sections currentSection
                (drop (length currentContent - OVERLAP_SIZE) currentContent) (chunkIndex + 1)
            else chunkMarkdown_loop sha256 sections currentSection currentContent chunkIndex))"

definition chunkMarkdown :: "(string \<Rightarrow> string) \<Rightarrow> string \<Rightarrow> Chunk list" where
  "chunkMarkdown sha256 doc = chunkMarkdown_loop sha256 (splitHeadings True [] doc) [] [] 0"

definition chunkDocument :: "(string \<Rightarrow> string) \<Rightarrow> string \<Rightarrow> string \<Rightarrow> FileType \<Rightarrow> Chunk list" where
  "chunkDocument sha256 filePath doc fileType =
     (if fileType = Md then chunkMarkdown sha256 doc
      else if fileType = Ts \<or> fileType = Tsx then chunkTypeScript sha256 doc
      else chunkPlainText sha256 doc)"

section \<open>Embedding service and store\<close>

text \<open>
  What the embedding service answers to one HTTP request: the \<open>fetch\<close> is rejected, or
  a reply arrives with a status code and a body. A body is not JSON, or JSON whose
  \<open>embedding\<close> field is not a numeric vector that the store accepts, or such a vector.
\<close>

datatype body = NotJson | NoVector | Vector "real list"

datatype response = Unreachable | Http nat body

datatype error = ReadError | TransportError | HttpError nat | ProtocolError | SqlError

definition ok :: "nat \<Rightarrow> bool" where
  "ok status = (200 \<le> status \<and> status \<le> 299)"

text \<open>One record of the table \<open>cortex_file_chunks\<close>, with the columns the sources write.\<close>

record row =
  file_path :: string
  file_hash :: string
  file_type :: string
  chunk_index :: nat
  chunk_hash :: string
  row_content :: string
  token_count :: nat
  embedding :: "real list"
  row_section :: "string option"
  language :: "string option"

text \<open>
  The state outside the process: the table, and two counters of effects that the
  properties speak about. \<open>requests\<close> counts the HTTP requests sent to the embedding service;
  \<open>commits\<close> lists the table after every statement that wrote to it (each statement runs
  in its own implicit transaction, no statement of the sources opens one), oldest first.
\<close>

record world =
  table :: "row list"
  requests :: nat
  commits :: "row list list"

text \<open>
  What the process is given: the digest, \<open>path.extname\<close>, the file system as seen by
  \<open>fs.readFile\<close> (\<open>None\<close> when the read is rejected), the embedding service, whose
  answer may depend on the number of requests it has received and on the prompt, and
  whether the storage engine answers statements at all (\<open>storage\<close>; when it does not,
  every statement throws).
\<close>

record env =
  sha256 :: "string \<Rightarrow> string"
  extname :: "string \<Rightarrow> string"
  readFile :: "string \<Rightarrow> string option"
  ollama :: "nat \<Rightarrow> string \<Rightarrow> response"
  storage :: bool

subsection \<open>Statements on the table\<close>

text \<open>
  \<open>SELECT file_hash ... WHERE file_path = p LIMIT 1\<close>, with the first matching record in
  table order as the one the engine returns.
\<close>

definition sql_select_file_hash :: "string \<Rightarrow> world \<Rightarrow> string list" where
  "sql_select_file_hash p w = map file_hash (take 1 (filter (\<lambda>r. file_path r = p) (table w)))"

definition sql_delete :: "string \<Rightarrow> world \<Rightarrow> world" where
  "sql_delete p w =
     (let t = filter (\<lambda>r. file_path r \<noteq> p) (table w)
      in w\<lparr>table := t, commits := commits w @ [t]\<rparr>)"

text \<open>
  \<open>INSERT\<close> of one record. The engine is taken to accept every record that the loop sends
  with a vector it accepts; a record that the engine refuses for another reason (its
  \<open>INSERT\<close> throws after the \<open>DELETE\<close> is committed) is not modelled.
\<close>

definition sql_insert :: "row \<Rightarrow> world \<Rightarrow> world" where
  "sql_insert r w =
     (let t = table w @ [r]
      in w\<lparr>table := t, commits := commits w @ [t]\<rparr>)"

section \<open>File sync (file-sync-embeddings.ts)\<close>

definition fileTypeString :: "FileType \<Rightarrow> string" where
  "fileTypeString t = (case t of Md \<Rightarrow> ''md'' | Ts \<Rightarrow> ''ts'' | Tsx \<Rightarrow> ''tsx'' | Json \<Rightarrow> ''json'')"

definition getFileType :: "(string \<Rightarrow> string) \<Rightarrow> string \<Rightarrow> FileType" where
  "getFileType extname_of p =
     (let ext = drop 1 (extname_of p)
      in if ext = ''md'' then Md
         else if ext = ''ts'' then Ts
         else if ext = ''tsx'' then Tsx
         else if ext = ''json'' then Json
         else Md)"

definition getLanguage :: "FileType \<Rightarrow> string option" where
  "getLanguage t =
     (if t = Ts \<or> t = Tsx then Some ''typescript''
      else if t = Json then Some ''json''
      else None)"

text \<open>
  \<open>getEmbedding\<close> returns \<open>data.embedding\<close> unchecked: \<open>None\<close> stands for a value that is
  not a usable vector.
\<close>

definition getEmbedding ::
  "(nat \<Rightarrow> string \<Rightarrow> response) \<Rightarrow> string \<Rightarrow> world \<Rightarrow> (error + real list option) \<times> world" where
  "getEmbedding service prompt w =
     (let w' = w\<lparr>requests := requests w + 1\<rparr>
      in case service (requests w) prompt of
           Unreachable \<Rightarrow> (Inl TransportError, w')
         | Http status b \<Rightarrow>
             if \<not> ok status then (Inl (HttpError status), w')
             else (case b of
                     NotJson \<Rightarrow> (Inl ProtocolError, w')
                   | NoVector \<Rightarrow> (Inr None, w')
                   | Vector v \<Rightarrow> (Inr (Some v), w')))"

text \<open>The values of the \<open>INSERT\<close>; \<open>chunk.section || null\<close> turns the empty label into null.\<close>

definition chunkRow :: "string \<Rightarrow> string \<Rightarrow> FileType \<Rightarrow> Chunk \<Rightarrow> real list \<Rightarrow> row" where
  "chunkRow p fileHash t chunk v =
     \<lparr>file_path = p, file_hash = fileHash, file_type = fileTypeString t,
      chunk_index = index chunk, chunk_hash = hash chunk, row_content = content chunk,
      token_count = tokenCount chunk, embedding = v,
      row_section = (case section' chunk of None \<Rightarrow> None
                     | Some l \<Rightarrow> if l = [] then None else Some l),
      language = getLanguage t\<rparr>"

definition oversized :: "Chunk \<Rightarrow> bool" where
  "oversized chunk = (length (content chunk) > 4000)"

text \<open>
  The loop over the chunks, with the counter \<open>created\<close>. A value that is not a vector
  makes \<open>embedding.join\<close> or the \<open>::vector\<close> cast of the \<open>INSERT\<close> throw, before a record
  is written.
\<close>

fun processChunks ::
  "env \<Rightarrow> string \<Rightarrow> string \<Rightarrow> FileType \<Rightarrow> Chunk list \<Rightarrow> nat \<Rightarrow> world \<Rightarrow> (error + nat) \<times> world" where
  "processChunks E p fileHash t [] created w = (Inr created, w)"
| "processChunks E p fileHash t (chunk # rest) created w =
     (if oversized chunk then processChunks E p fileHash t rest created w
      else (case getEmbedding (ollama E) (content chunk) w of
              (Inl e, w1) \<Rightarrow> (Inl e, w1)
            | (Inr None, w1) \<Rightarrow> (Inl ProtocolError, w1)
            | (Inr (Some v), w1) \<Rightarrow>
                processChunks E p fileHash t rest (created + 1)
                  (sql_insert (chunkRow p fileHash t chunk v) w1)))"

record SyncFileResult =
  chunks :: nat
  skipped :: bool

text \<open>
  \<open>syncFile\<close>. Reading the file comes first and may be rejected. The \<open>SELECT\<close> of the change
  check is the first statement sent to the store: it throws when the storage engine does
  not answer. \<open>DELETE\<close> and the \<open>INSERT\<close>s follow it on the same connection.
\<close>

definition syncFile :: "env \<Rightarrow> string \<Rightarrow> bool \<Rightarrow> world \<Rightarrow> (error + SyncFileResult) \<times> world" where
  "syncFile E p force w =
     (let t = getFileType (extname E) p
      in case readFile E p of
           None \<Rightarrow> (Inl ReadError, w)
         | Some doc \<Rightarrow>
            (let fileHash = hashFile (sha256 E) doc;
                 existing = sql_select_file_hash p w
             in if \<not> storage E then (Inl SqlError, w)
                else if \<not> force \<and> length existing > 0 \<and> hd existing = fileHash
                then (Inr \<lparr>chunks = 0, skipped = True\<rparr>, w)
                else (let w1 = sql_delete p w;
                          chunkList = chunkDocument (sha256 E) p doc t
                      in case processChunks E p fileHash t chunkList 0 w1 of
                           (Inl e, w2) \<Rightarrow> (Inl e, w2)
                         | (Inr created, w2) \<Rightarrow> (Inr \<lparr>chunks = created, skipped = False\<rparr>, w2))))"

section \<open>Embedding client (ollama-embedding-client.ts)\<close>

text \<open>The \<open>for\<close> loop of \<open>embed\<close>, with the array \<open>embeddings\<close> as an argument.\<close>

fun embed_loop ::
  "(nat \<Rightarrow> string \<Rightarrow> response) \<Rightarrow> string list \<Rightarrow> real list list \<Rightarrow> world \<Rightarrow>
     (error + real list list) \<times> world" where
  "embed_loop service [] embeddings w = (Inr embeddings, w)"
| "embed_loop service (prompt # texts) embeddings w =
     (let w' = w\<lparr>requests := requests w + 1\<rparr>
      in case service (requests w) prompt of
           Unreachable \<Rightarrow> (Inl TransportError, w')
         | Http status b \<Rightarrow>
             if \<not> ok status then (Inl (HttpError status), w')
             else (case b of
                     NotJson \<Rightarrow> (Inl ProtocolError, w')
                   | NoVector \<Rightarrow> (Inl ProtocolError, w')
                   | Vector v \<Rightarrow> embed_loop service texts (embeddings @ [v]) w'))"

definition embed ::
  "(nat \<Rightarrow> string \<Rightarrow> response) \<Rightarrow> string list \<Rightarrow> world \<Rightarrow> (error + real list list) \<times> world" where
  "embed service texts w =
     (if length texts = 0 then (Inr [], w)
      else (case embed_loop service texts [] w of
              (Inl e, w') \<Rightarrow> (Inl e, w')
            | (Inr embeddings, w') \<Rightarrow>
                if length embeddings \<noteq> length texts then (Inl ProtocolError, w')
                else (Inr embeddings, w')))"

section \<open>Vector retriever (vector-search.ts)\<close>

record RetrievalResult =
  filePath :: string
  result_content :: string
  result_section :: "string option"
  similarity :: "real option"
  chunkIndex :: nat
  fileType :: string

definition dot :: "real list \<Rightarrow> real list \<Rightarrow> real" where
  "dot a b = sum_list (map2 (*) a b)"

text \<open>
  Modelled from the spec: the operator \<open><=>\<close> of the storage engine, which is not part of
  the sources. The spec and the repository's notes name it the cosine distance: one
  minus the cosine of the angle between the two vectors. It is not a number (\<open>None\<close>)
  when one of the vectors has norm zero.
\<close>

definition cosine_distance :: "real list \<Rightarrow> real list \<Rightarrow> real option" where
  "cosine_distance a b =
     (if dot a a * dot b b = 0 then None
      else Some (1 - dot a b / sqrt (dot a a * dot b b)))"

text \<open>The sort key of \<open>ORDER BY embedding <=> q\<close>: numbers ascending, then what is not a number.\<close>

definition distanceKey :: "real list \<Rightarrow> row \<Rightarrow> nat \<times> real" where
  "distanceKey q r = (case cosine_distance (embedding r) q of None \<Rightarrow> (1, 0) | Some d \<Rightarrow> (0, d))"

text \<open>The computed column \<open>1 - (embedding <=> q) AS similarity\<close>.\<close>

definition similarityTo :: "real list \<Rightarrow> row \<Rightarrow> real option" where
  "similarityTo q r = map_option (\<lambda>d. 1 - d) (cosine_distance (embedding r) q)"

text \<open>
  The two \<open>SELECT\<close> statements of the retriever (\<open>fileTypes = None\<close> for the one without
  \<open>WHERE\<close>), each returning the records with the computed column \<open>similarity\<close>. The
  statement throws when the storage engine does not answer, when a compared vector has
  another dimension than the query vector, and when \<open>LIMIT\<close> is negative.
\<close>

definition sql_select_nearest ::
  "bool \<Rightarrow> string list option \<Rightarrow> real list \<Rightarrow> int \<Rightarrow> world \<Rightarrow> error + (row \<times> real option) list" where
  "sql_select_nearest up fileTypes q k w =
     (let candidates =
            (case fileTypes of
               None \<Rightarrow> table w
             | Some ts \<Rightarrow> filter (\<lambda>r. file_type r \<in> set ts) (table w))
      in if \<not> up then Inl SqlError
         else if list_ex (\<lambda>r. length (embedding r) \<noteq> length q) candidates then Inl SqlError
         else if k < 0 then Inl SqlError
         else Inr (map (\<lambda>r. (r, similarityTo q r))
                    (take (nat k) (sort_key (distanceKey q) candidates))))"

definition toResult :: "row \<times> real option \<Rightarrow> RetrievalResult" where
  "toResult rs =
     \<lparr>filePath = file_path (fst rs), result_content = row_content (fst rs),
      result_section = row_section (fst rs), similarity = snd rs,
      chunkIndex = chunk_index (fst rs), fileType = file_type (fst rs)\<rparr>"

text \<open>The body of the \<open>try\<close> block of \<open>queryVectorDatabase\<close>.\<close>

definition queryVectorDatabase_try ::
  "env \<Rightarrow> string \<Rightarrow> int \<Rightarrow> string list option \<Rightarrow> world \<Rightarrow>
     (error + RetrievalResult list) \<times> world" where
  "queryVectorDatabase_try E query topK fileTypeFilter w =
     (case embed (ollama E) [query] w of
        (Inl e, w1) \<Rightarrow> (Inl e, w1)
      | (Inr vs, w1) \<Rightarrow>
          (case vs of
             [] \<Rightarrow> (Inl SqlError, w1)
           | queryEmbedding # _ \<Rightarrow>
               (case (case fileTypeFilter of
                        None \<Rightarrow> sql_select_nearest (storage E) None queryEmbedding topK w1
                      | Some ts \<Rightarrow>
                          if length ts > 0
                          then sql_select_nearest (storage E) (Some ts) queryEmbedding topK w1
                          else sql_select_nearest (storage E) None queryEmbedding topK w1) of
                  Inl e \<Rightarrow> (Inl e, w1)
                | Inr results \<Rightarrow> (Inr (map toResult results), w1))))"

text \<open>\<open>queryVectorDatabase\<close>: the \<open>catch\<close> turns every error of the body into the empty list.\<close>

definition queryVectorDatabase ::
  "env \<Rightarrow> string \<Rightarrow> int \<Rightarrow> string list option \<Rightarrow> world \<Rightarrow> RetrievalResult list \<times> world" where
  "queryVectorDatabase E query topK fileTypeFilter w =
     (case queryVectorDatabase_try E query topK fileTypeFilter w of
        (Inl e, w') \<Rightarrow> ([], w')
      | (Inr results, w') \<Rightarrow> (results, w'))"

section \<open>Notions of the specification\<close>

text \<open>The bound \<open>ceil(length / (maxSize - overlap))\<close> on the number of fixed-window chunks.\<close>

definition chunkCountBound :: "nat \<Rightarrow> nat" where
  "chunkCountBound n =
     (n + (MAX_CHUNK_SIZE - OVERLAP_SIZE) - 1) div (MAX_CHUNK_SIZE - OVERLAP_SIZE)"

text \<open>
  The concatenation of the non-overlapping portions of a chunk sequence: the first chunk,
  then every later chunk without the overlap window at its start.
\<close>

definition nonOverlapping :: "Chunk list \<Rightarrow> string" where
  "nonOverlapping cs =
     (case cs of
        [] \<Rightarrow> []
      | c # rest \<Rightarrow> content c @ concat (map (\<lambda>d. drop OVERLAP_SIZE (content d)) rest))"

text \<open>The chunks that the write path embeds and stores: those it does not skip as oversized.\<close>

definition kept :: "Chunk list \<Rightarrow> Chunk list" where
  "kept cs = filter (\<lambda>c. \<not> oversized c) cs"

text \<open>The records of a table for one file path, and the records for all other paths.\<close>

definition rowsAt :: "string \<Rightarrow> row list \<Rightarrow> row list" where
  "rowsAt p t = filter (\<lambda>r. file_path r = p) t"

definition rowsElsewhere :: "string \<Rightarrow> row list \<Rightarrow> row list" where
  "rowsElsewhere p t = filter (\<lambda>r. file_path r \<noteq> p) t"

text \<open>The fingerprint that the store records for a path: the one the change check reads.\<close>

definition storedFingerprint :: "string \<Rightarrow> world \<Rightarrow> string option" where
  "storedFingerprint p w =
     (case rowsAt p (table w) of [] \<Rightarrow> None | r # _ \<Rightarrow> Some (file_hash r))"

text \<open>Uniqueness of the pair (file path, chunk index) in a table.\<close>

definition uniqueKeys :: "row list \<Rightarrow> bool" where
  "uniqueKeys t = distinct (map (\<lambda>r. (file_path r, chunk_index r)) t)"

text \<open>The tables that follow when \<open>rows\<close> are inserted one by one into the table \<open>t\<close>.\<close>

definition growth :: "row list \<Rightarrow> row list \<Rightarrow> row list list" where
  "growth t rows = map (\<lambda>j. t @ take j rows) [1 ..< Suc (length rows)]"

text \<open>The tables committed since the state \<open>w\<close>, in the later state \<open>w'\<close>.\<close>

definition committedSince :: "world \<Rightarrow> world \<Rightarrow> row list list" where
  "committedSince w w' = drop (length (commits w)) (commits w')"

section \<open>Example environments\<close>

text \<open>
  An environment for concrete runs: the identity stands in for the digest, the extension
  of a path is what follows its first dot (as \<open>path.extname\<close> gives for a file name with
  one dot), the files are listed, and the storage engine answers.
\<close>

definition exampleEnv :: "(string \<times> string) list \<Rightarrow> (nat \<Rightarrow> string \<Rightarrow> response) \<Rightarrow> env" where
  "exampleEnv files service =
     \<lparr>sha256 = (\<lambda>s. s), extname = dropWhile (\<lambda>c. c \<noteq> CHR ''.''), readFile = map_of files,
      ollama = service, storage = True\<rparr>"

definition emptyWorld :: world where
  "emptyWorld = \<lparr>table = [], requests = 0, commits = []\<rparr>"

text \<open>A record as an earlier indexing of the text \<open>doc\<close> in one chunk would have left it.\<close>

definition oldRow :: "string \<Rightarrow> FileType \<Rightarrow> string \<Rightarrow> row" where
  "oldRow p t doc = chunkRow p doc t (createChunk (\<lambda>s. s) doc 0 None) [1]"

text \<open>
  The example scenario of the specification: a Markdown file with two \<open>##\<close> sections. A
  plain body is non-empty text without \<open>#\<close> that neither starts nor ends with white space.
\<close>

definition twoSections :: "string \<Rightarrow> string \<Rightarrow> string" where
  "twoSections body1 body2 =
     ''## Setup'' @ [CHR 0x0A] @ body1 @ [CHR 0x0A] @ ''## Usage'' @ [CHR 0x0A] @ body2"

definition plainBody :: "string \<Rightarrow> bool" where
  "plainBody b =
     (b \<noteq> [] \<and> CHR ''#'' \<notin> set b \<and> \<not> isWhiteSpace (hd b) \<and> \<not> isWhiteSpace (last b))"

section \<open>Properties of the chunker\<close>

lemma overlap_lt_max: "OVERLAP_SIZE < MAX_CHUNK_SIZE"
  by (simp add: OVERLAP_SIZE_def MAX_CHUNK_SIZE_def)

lemma content_createChunk [simp]: "content (createChunk sha c i l) = c"
  by (simp add: createChunk_def)

lemma index_createChunk [simp]: "index (createChunk sha c i l) = i"
  by (simp add: createChunk_def)

lemma length_slice: "length (slice s a b) = min b (length s) - a"
  by (simp add: slice_def)

lemma loop_unfold:
  "start < length doc \<Longrightarrow>
   chunkPlainText_loop sha doc start i =
     createChunk sha (slice doc start (min (start + MAX_CHUNK_SIZE) (length doc))) i None #
     (if min (start + MAX_CHUNK_SIZE) (length doc) - OVERLAP_SIZE \<le> start then []
      else chunkPlainText_loop sha doc
             (min (start + MAX_CHUNK_SIZE) (length doc) - OVERLAP_SIZE) (i + 1))"
  by (subst chunkPlainText_loop.simps) (simp add: Let_def)

lemma loop_done: "\<not> start < length doc \<Longrightarrow> chunkPlainText_loop sha doc start i = []"
  by (subst chunkPlainText_loop.simps) simp

subsection \<open>Size of the fixed-window chunks\<close>

lemma loop_chunks_bounded:
  "c \<in> set (chunkPlainText_loop sha doc start i) \<Longrightarrow>
     content c \<noteq> [] \<and> length (content c) \<le> MAX_CHUNK_SIZE"
proof (induction sha doc start i rule: chunkPlainText_loop.induct)
  case (1 sha doc start i)
  show ?case
  proof (cases "start < length doc")
    case False
    with "1.prems" show ?thesis by (simp add: loop_done)
  next
    case True
    define e where "e = min (start + MAX_CHUNK_SIZE) (length doc)"
    have pos: "0 < MAX_CHUNK_SIZE" by (simp add: MAX_CHUNK_SIZE_def)
    have len: "length (slice doc start e) = e - start"
      by (simp add: length_slice e_def)
    have es: "start < e" using True pos by (simp add: e_def)
    from "1.prems" loop_unfold[OF True, of sha i]
    consider (first) "c = createChunk sha (slice doc start e) i None"
      | (later) "\<not> e - OVERLAP_SIZE \<le> start"
          "c \<in> set (chunkPlainText_loop sha doc (e - OVERLAP_SIZE) (i + 1))"
      by (auto simp: e_def split: if_splits)
    then show ?thesis
    proof cases
      case first
      have "length (content c) = e - start" using first len by simp
      moreover have "e - start \<le> MAX_CHUNK_SIZE" by (simp add: e_def)
      ultimately show ?thesis using es by auto
    next
      case later
      then show ?thesis using "1.IH"[OF True e_def refl refl] by simp
    qed
  qed
qed

subsection \<open>Chunk indexes\<close>

lemma loop_indexes:
  "map index (chunkPlainText_loop sha doc start i) =
     [i ..< i + length (chunkPlainText_loop sha doc start i)]"
proof (induction sha doc start i rule: chunkPlainText_loop.induct)
  case (1 sha doc start i)
  show ?case
  proof (cases "start < length doc")
    case False
    then show ?thesis by (simp add: loop_done)
  next
    case True
    define e where "e = min (start + MAX_CHUNK_SIZE) (length doc)"
    show ?thesis
    proof (cases "e - OVERLAP_SIZE \<le> start")
      case stop: True
      then show ?thesis using loop_unfold[OF True, of sha i] by (simp add: e_def)
    next
      case go: False
      have "map index (chunkPlainText_loop sha doc (e - OVERLAP_SIZE) (i + 1)) =
            [i + 1 ..< i + 1 + length (chunkPlainText_loop sha doc (e - OVERLAP_SIZE) (i + 1))]"
        using "1.IH"[OF True e_def refl refl go] .
      moreover have "[i ..< i + Suc n] = i # [i + 1 ..< i + 1 + n]" for n
        by (simp add: upt_conv_Cons)
      ultimately show ?thesis using loop_unfold[OF True, of sha i] go
        by (simp add: e_def del: upt_Suc)
    qed
  qed
qed

subsection \<open>Number of fixed-window chunks\<close>

lemma loop_length:
  "start < length doc \<Longrightarrow>
   length (chunkPlainText_loop sha doc start i) =
     (length doc - start - OVERLAP_SIZE + (MAX_CHUNK_SIZE - OVERLAP_SIZE - 1)) div
       (MAX_CHUNK_SIZE - OVERLAP_SIZE) + 1"
proof (induction sha doc start i rule: chunkPlainText_loop.induct)
  case (1 sha doc start i)
  define e where "e = min (start + MAX_CHUNK_SIZE) (length doc)"
  have lt: "start < length doc" by fact
  show ?case
  proof (cases "e - OVERLAP_SIZE \<le> start")
    case stop: True
    then have "length doc - start \<le> OVERLAP_SIZE"
      by (auto simp: e_def min_def MAX_CHUNK_SIZE_def OVERLAP_SIZE_def split: if_splits)
    then show ?thesis using loop_unfold[OF lt, of sha i] stop
      by (simp add: e_def MAX_CHUNK_SIZE_def OVERLAP_SIZE_def)
  next
    case go: False
    then have a: "e - OVERLAP_SIZE < length doc"
      by (auto simp: e_def min_def OVERLAP_SIZE_def split: if_splits)
    have ih: "length (chunkPlainText_loop sha doc (e - OVERLAP_SIZE) (i + 1)) =
          (length doc - (e - OVERLAP_SIZE) - OVERLAP_SIZE + (MAX_CHUNK_SIZE - OVERLAP_SIZE - 1)) div
            (MAX_CHUNK_SIZE - OVERLAP_SIZE) + 1"
      using "1.IH"[OF lt e_def refl refl go a] .
    have "length (chunkPlainText_loop sha doc start i) =
          1 + length (chunkPlainText_loop sha doc (e - OVERLAP_SIZE) (i + 1))"
      using loop_unfold[OF lt, of sha i] go by (simp add: e_def)
    also have "\<dots> =
        (length doc - start - OVERLAP_SIZE + (MAX_CHUNK_SIZE - OVERLAP_SIZE - 1)) div
          (MAX_CHUNK_SIZE - OVERLAP_SIZE) + 1"
      unfolding ih using go lt
      by (auto simp: e_def min_def MAX_CHUNK_SIZE_def OVERLAP_SIZE_def split: if_splits)
    finally show ?thesis .
  qed
qed

text \<open>
  The loop returns for every input (it is a total function), and the number of chunks is:
  none for the empty string, otherwise \<open>ceil((length - overlap) / (maxSize - overlap)) + 1\<close>,
  with the truncated difference. The last chunk of a string longer than the overlap is the
  last \<open>OVERLAP_SIZE\<close> characters alone.
\<close>

lemma chunkPlainText_length:
  "length (chunkPlainText sha doc) =
     (if doc = [] then 0
      else (length doc - OVERLAP_SIZE + (MAX_CHUNK_SIZE - OVERLAP_SIZE - 1)) div
             (MAX_CHUNK_SIZE - OVERLAP_SIZE) + 1)"
  using loop_length[of 0 doc sha 0] by (simp add: chunkPlainText_def loop_done)

lemma chunkPlainText_count_le:
  "length (chunkPlainText sha doc) \<le> chunkCountBound (length doc) + 1"
  by (auto simp: chunkPlainText_length chunkCountBound_def MAX_CHUNK_SIZE_def OVERLAP_SIZE_def
        intro!: div_le_mono)

text \<open>
  C5. Fixed-window chunking is claimed to produce at most
  \<open>ceil(length / (maxSize - overlap))\<close> chunks. A string of 200 characters gives two
  chunks, characters 0 to 200 and characters 100 to 200, where the bound is one.
\<close>

theorem chunkPlainText_exceeds_bound:
  "length (chunkPlainText (\<lambda>s. s) (replicate 200 CHR ''a'')) = 2 \<and>
   chunkCountBound (length (replicate 200 CHR ''a'')) = 1"
  by (simp add: chunkPlainText_length chunkCountBound_def MAX_CHUNK_SIZE_def OVERLAP_SIZE_def)

subsection \<open>Coverage\<close>

lemma loop_tail_cover:
  "start < length doc \<Longrightarrow> start + OVERLAP_SIZE \<le> length doc \<Longrightarrow>
   concat (map (\<lambda>c. drop OVERLAP_SIZE (content c)) (chunkPlainText_loop sha doc start i)) =
     drop (start + OVERLAP_SIZE) doc"
proof (induction sha doc start i rule: chunkPlainText_loop.induct)
  case (1 sha doc start i)
  define e where "e = min (start + MAX_CHUNK_SIZE) (length doc)"
  have lt: "start < length doc" by fact
  have e_le: "e \<le> length doc" by (simp add: e_def)
  have e_ge: "start + OVERLAP_SIZE \<le> e"
    using "1.prems" overlap_lt_max by (simp add: e_def)
  have first: "drop OVERLAP_SIZE (slice doc start e) = slice doc (start + OVERLAP_SIZE) e"
    by (simp add: slice_def drop_take add.commute)
  show ?case
  proof (cases "e - OVERLAP_SIZE \<le> start")
    case stop: True
    then have "e = length doc"
      using overlap_lt_max e_ge by (auto simp: e_def min_def split: if_splits)
    then show ?thesis using loop_unfold[OF lt, of sha i] stop first
      by (simp add: e_def slice_def)
  next
    case go: False
    have "0 < OVERLAP_SIZE" by (simp add: OVERLAP_SIZE_def)
    then have a: "e - OVERLAP_SIZE < length doc" using e_le go by linarith
    have b: "e - OVERLAP_SIZE + OVERLAP_SIZE \<le> length doc" using e_le e_ge by linarith
    have ih: "concat (map (\<lambda>c. drop OVERLAP_SIZE (content c))
                 (chunkPlainText_loop sha doc (e - OVERLAP_SIZE) (i + 1))) = drop e doc"
      using "1.IH"[OF lt e_def refl refl go a b] e_ge by simp
    have "slice doc (start + OVERLAP_SIZE) e @ drop e doc = drop (start + OVERLAP_SIZE) doc"
      using e_ge e_le
      by (metis slice_def append_take_drop_id drop_drop le_add_diff_inverse2 add.commute)
    then show ?thesis using loop_unfold[OF lt, of sha i] go first ih
      by (simp add: e_def)
  qed
qed

lemma chunkPlainText_cover: "nonOverlapping (chunkPlainText sha doc) = doc"
proof (cases "doc = []")
  case True
  then show ?thesis by (simp add: nonOverlapping_def chunkPlainText_def loop_done)
next
  case False
  define e where "e = min MAX_CHUNK_SIZE (length doc)"
  have lt: "0 < length doc" using False by simp
  show ?thesis
  proof (cases "e - OVERLAP_SIZE \<le> 0")
    case stop: True
    then have "e = length doc"
      using overlap_lt_max by (auto simp: e_def min_def split: if_splits)
    then show ?thesis using loop_unfold[OF lt, of sha 0] stop
      by (simp add: nonOverlapping_def chunkPlainText_def e_def slice_def)
  next
    case go: False
    have e_le: "e \<le> length doc" by (simp add: e_def)
    have "0 < OVERLAP_SIZE" by (simp add: OVERLAP_SIZE_def)
    then have a: "e - OVERLAP_SIZE < length doc" using e_le go by linarith
    have b: "e - OVERLAP_SIZE + OVERLAP_SIZE \<le> length doc" using e_le go by linarith
    have "concat (map (\<lambda>c. drop OVERLAP_SIZE (content c))
            (chunkPlainText_loop sha doc (e - OVERLAP_SIZE) 1)) = drop e doc"
      using loop_tail_cover[OF a b, of sha 1] go by simp
    then show ?thesis using loop_unfold[OF lt, of sha 0] go
      by (simp add: nonOverlapping_def chunkPlainText_def e_def slice_def)
  qed
qed

text \<open>
  C6, as stated: concatenating the non-overlapping portions of the chunks gives back the
  content, for every content and file type. For Markdown it does not: the heading line
  becomes the label of the chunk and the chunk text is trimmed.
\<close>

theorem markdown_coverage_counterexample:
  "nonOverlapping (chunkDocument (\<lambda>s. s) ''README.md'' (''# T'' @ [CHR 0x0A] @ ''body'') Md) \<noteq>
     ''# T'' @ [CHR 0x0A] @ ''body''"
  by code_simp

text \<open>
  C6, amended: for the file types other than Markdown, the first chunk followed by every
  later chunk without its first \<open>OVERLAP_SIZE\<close> characters is the content.
\<close>

theorem chunkDocument_coverage:
  "ft \<noteq> Md \<Longrightarrow> nonOverlapping (chunkDocument sha p doc ft) = doc"
  by (simp add: chunkDocument_def chunkTypeScript_def chunkPlainText_cover)

theorem chunkDocument_coverage_witness:
  "Json \<noteq> Md \<and>
   nonOverlapping (chunkDocument (\<lambda>s. s) ''package.json'' (replicate 1200 CHR ''x'') Json) =
     replicate 1200 CHR ''x'' \<and>
   length (chunkDocument (\<lambda>s. s) ''package.json'' (replicate 1200 CHR ''x'') Json) = 3"
  using chunkDocument_coverage[of Json "\<lambda>s. s" "''package.json''" "replicate 1200 CHR ''x''"]
  by (simp add: chunkDocument_def chunkPlainText_length MAX_CHUNK_SIZE_def OVERLAP_SIZE_def)

text \<open>
  C10. For the file types other than Markdown every chunk is non-empty and at most
  \<open>MAX_CHUNK_SIZE = 1024\<close> characters long, so the write path's test for chunks longer than
  4000 characters holds of none of them.
\<close>

theorem chunkDocument_plain_chunk_size:
  "ft \<noteq> Md \<Longrightarrow>
   \<forall>c \<in> set (chunkDocument sha p doc ft).
     content c \<noteq> [] \<and> length (content c) \<le> 1024 \<and> \<not> oversized c"
proof
  fix c
  assume ft: "ft \<noteq> Md" and "c \<in> set (chunkDocument sha p doc ft)"
  then have "c \<in> set (chunkPlainText_loop sha doc 0 0)"
    by (simp add: chunkDocument_def chunkTypeScript_def chunkPlainText_def split: if_splits)
  then have "content c \<noteq> [] \<and> length (content c) \<le> MAX_CHUNK_SIZE"
    by (rule loop_chunks_bounded)
  then show "content c \<noteq> [] \<and> length (content c) \<le> 1024 \<and> \<not> oversized c"
    by (simp add: oversized_def MAX_CHUNK_SIZE_def)
qed

theorem chunkDocument_plain_chunk_size_witness:
  "Tsx \<noteq> Md \<and>
   map content (chunkDocument (\<lambda>s. s) ''App.tsx'' ''export default App'' Tsx) =
     [''export default App''] \<and>
   list_all (\<lambda>c. content c \<noteq> [] \<and> length (content c) \<le> 1024 \<and> \<not> oversized c)
     (chunkDocument (\<lambda>s. s) ''App.tsx'' ''export default App'' Tsx)"
proof -
  have "map content (chunkDocument (\<lambda>s. s) ''App.tsx'' ''export default App'' Tsx) =
          [''export default App'']"
    by code_simp
  then show ?thesis
    using chunkDocument_plain_chunk_size[of Tsx "\<lambda>s. s" "''App.tsx''" "''export default App''"]
    by (simp add: list_all_iff)
qed

section \<open>Properties of the write path\<close>

subsection \<open>What the loop over the chunks does to the store\<close>

lemma growth_Nil [simp]: "growth t [] = []"
  by (simp add: growth_def)

lemma growth_Cons: "growth t (r # rows) = (t @ [r]) # growth (t @ [r]) rows"
proof -
  have "[1 ..< Suc (Suc n)] = 1 # map Suc [1 ..< Suc n]" for n
    by (simp add: map_Suc_upt upt_conv_Cons del: upt_Suc)
  then show ?thesis by (simp add: growth_def comp_def del: upt_Suc)
qed

lemma getEmbedding_world:
  "getEmbedding service prompt w = (res, w1) \<Longrightarrow> w1 = w\<lparr>requests := requests w + 1\<rparr>"
  by (auto simp: getEmbedding_def Let_def split: response.splits body.splits if_splits)

lemma processChunks_effect:
  "processChunks E p fh t cs n w = (res, w') \<Longrightarrow>
   \<exists>vs. length vs \<le> length (kept cs) \<and>
        table w' = table w @ map2 (chunkRow p fh t) (kept cs) vs \<and>
        commits w' = commits w @ growth (table w) (map2 (chunkRow p fh t) (kept cs) vs) \<and>
        requests w' = requests w + (if \<exists>m. res = Inr m then length vs else length vs + 1) \<and>
        (\<forall>m. res = Inr m \<longrightarrow> length vs = length (kept cs) \<and> m = n + length vs) \<and>
        (\<forall>e. res = Inl e \<longrightarrow> length vs < length (kept cs))"
proof (induction cs arbitrary: n w)
  case Nil
  then show ?case by (auto simp: kept_def)
next
  case (Cons c cs)
  show ?case
  proof (cases "oversized c")
    case True
    with Cons.prems have "processChunks E p fh t cs n w = (res, w')" by simp
    moreover have "kept (c # cs) = kept cs" using True by (simp add: kept_def)
    ultimately show ?thesis using Cons.IH[of n w] by simp
  next
    case False
    obtain g w1 where g: "getEmbedding (ollama E) (content c) w = (g, w1)"
      by (cases "getEmbedding (ollama E) (content c) w")
    have w1: "w1 = w\<lparr>requests := requests w + 1\<rparr>" using getEmbedding_world[OF g] .
    have k: "kept (c # cs) = c # kept cs" using False by (simp add: kept_def)
    show ?thesis
    proof (cases g)
      case (Inl e)
      with Cons.prems False g have "res = Inl e" "w' = w1" by auto
      then show ?thesis using w1 k by (intro exI[of _ "[]"]) simp
    next
      case (Inr ov)
      show ?thesis
      proof (cases ov)
        case None
        with Cons.prems False g Inr have "res = Inl ProtocolError" "w' = w1" by auto
        then show ?thesis using w1 k by (intro exI[of _ "[]"]) simp
      next
        case (Some v)
        define w2 where "w2 = sql_insert (chunkRow p fh t c v) w1"
        have run: "processChunks E p fh t cs (n + 1) w2 = (res, w')"
          using Cons.prems False g Inr Some by (simp add: w2_def)
        have tw2: "table w2 = table w @ [chunkRow p fh t c v]"
          and cw2: "commits w2 = commits w @ [table w @ [chunkRow p fh t c v]]"
          and rw2: "requests w2 = requests w + 1"
          by (simp_all add: w2_def w1 sql_insert_def Let_def)
        from Cons.IH[OF run] obtain vs where vs:
          "length vs \<le> length (kept cs)"
          "table w' = table w2 @ map2 (chunkRow p fh t) (kept cs) vs"
          "commits w' = commits w2 @ growth (table w2) (map2 (chunkRow p fh t) (kept cs) vs)"
          "requests w' = requests w2 + (if \<exists>m. res = Inr m then length vs else length vs + 1)"
          "\<forall>m. res = Inr m \<longrightarrow> length vs = length (kept cs) \<and> m = n + 1 + length vs"
          "\<forall>e. res = Inl e \<longrightarrow> length vs < length (kept cs)"
          by blast
        show ?thesis
          using vs tw2 cw2 rw2 k
          by (intro exI[of _ "v # vs"]) (auto simp: growth_Cons)
      qed
    qed
  qed
qed

lemma processChunks_none_kept:
  "kept cs = [] \<Longrightarrow> processChunks E p fh t cs n w = (Inr n, w)"
  by (induction cs arbitrary: n w) (auto simp: kept_def split: if_splits)

lemma existing_iff:
  "(length (sql_select_file_hash p w) > 0 \<and> hd (sql_select_file_hash p w) = fh) \<longleftrightarrow>
     storedFingerprint p w = Some fh"
  by (cases "filter (\<lambda>r. file_path r = p) (table w)")
     (auto simp: sql_select_file_hash_def storedFingerprint_def rowsAt_def)

lemma syncFile_skip:
  assumes "readFile E p = Some doc" and "storage E"
    and "\<not> force" and "storedFingerprint p w = Some (hashFile (sha256 E) doc)"
  shows "syncFile E p force w = (Inr \<lparr>chunks = 0, skipped = True\<rparr>, w)"
  using assms existing_iff[of p w "hashFile (sha256 E) doc"]
  by (simp add: syncFile_def Let_def)

lemma syncFile_proceed:
  assumes "readFile E p = Some doc" and "storage E"
    and "\<not> (\<not> force \<and> storedFingerprint p w = Some (hashFile (sha256 E) doc))"
  shows "syncFile E p force w =
     (case processChunks E p (hashFile (sha256 E) doc) (getFileType (extname E) p)
             (chunkDocument (sha256 E) p doc (getFileType (extname E) p)) 0 (sql_delete p w) of
        (Inl e, w2) \<Rightarrow> (Inl e, w2)
      | (Inr created, w2) \<Rightarrow> (Inr \<lparr>chunks = created, skipped = False\<rparr>, w2))"
  using assms existing_iff[of p w "hashFile (sha256 E) doc"]
  by (auto simp: syncFile_def Let_def)

lemma syncFile_effect:
  assumes rd: "readFile E p = Some doc" and up: "storage E"
    and ch: "\<not> (\<not> force \<and> storedFingerprint p w = Some (hashFile (sha256 E) doc))"
    and run: "syncFile E p force w = (res, w')"
  defines "K \<equiv> kept (chunkDocument (sha256 E) p doc (getFileType (extname E) p))"
    and "mk \<equiv> chunkRow p (hashFile (sha256 E) doc) (getFileType (extname E) p)"
  shows "\<exists>vs. length vs \<le> length K \<and>
        table w' = rowsElsewhere p (table w) @ map2 mk K vs \<and>
        commits w' = commits w @ rowsElsewhere p (table w) #
                       growth (rowsElsewhere p (table w)) (map2 mk K vs) \<and>
        requests w' = requests w + (if \<exists>r. res = Inr r then length vs else length vs + 1) \<and>
        (\<forall>r. res = Inr r \<longrightarrow> length vs = length K \<and> r = \<lparr>chunks = length K, skipped = False\<rparr>) \<and>
        (\<forall>e. res = Inl e \<longrightarrow> length vs < length K)"
proof -
  obtain r2 w2 where pc: "processChunks E p (hashFile (sha256 E) doc) (getFileType (extname E) p)
             (chunkDocument (sha256 E) p doc (getFileType (extname E) p)) 0 (sql_delete p w) = (r2, w2)"
    by (cases "processChunks E p (hashFile (sha256 E) doc) (getFileType (extname E) p)
             (chunkDocument (sha256 E) p doc (getFileType (extname E) p)) 0 (sql_delete p w)")
  have del: "table (sql_delete p w) = rowsElsewhere p (table w)"
    "commits (sql_delete p w) = commits w @ [rowsElsewhere p (table w)]"
    "requests (sql_delete p w) = requests w"
    by (simp_all add: sql_delete_def rowsElsewhere_def Let_def)
  have fin: "w' = w2" "res = (case r2 of Inl e \<Rightarrow> Inl e | Inr n \<Rightarrow> Inr \<lparr>chunks = n, skipped = False\<rparr>)"
    using run pc syncFile_proceed[OF rd up ch] by (auto split: sum.splits)
  from processChunks_effect[OF pc] obtain vs where vs:
    "length vs \<le> length K"
    "table w2 = rowsElsewhere p (table w) @ map2 mk K vs"
    "commits w2 = commits w @ rowsElsewhere p (table w) # growth (rowsElsewhere p (table w)) (map2 mk K vs)"
    "requests w2 = requests w + (if \<exists>m. r2 = Inr m then length vs else length vs + 1)"
    "\<forall>m. r2 = Inr m \<longrightarrow> length vs = length K \<and> m = 0 + length vs"
    "\<forall>e. r2 = Inl e \<longrightarrow> length vs < length K"
    unfolding K_def mk_def del by auto
  show ?thesis
    using vs fin by (intro exI[of _ vs]) (cases r2; simp)
qed

subsection \<open>The records of one path\<close>

lemma file_path_chunkRow [simp]: "file_path (chunkRow p fh t c v) = p"
  and file_hash_chunkRow [simp]: "file_hash (chunkRow p fh t c v) = fh"
  and chunk_index_chunkRow [simp]: "chunk_index (chunkRow p fh t c v) = index c"
  by (simp_all add: chunkRow_def)

lemma rowsAt_Elsewhere [simp]: "rowsAt p (rowsElsewhere p t) = []"
  by (simp add: rowsAt_def rowsElsewhere_def)

lemma rowsElsewhere_idem [simp]: "rowsElsewhere p (rowsElsewhere p t) = rowsElsewhere p t"
  by (simp add: rowsElsewhere_def)

lemma new_rows_path: "r \<in> set (map2 (chunkRow p fh t) K vs) \<Longrightarrow> file_path r = p"
  by (auto simp: set_zip)

lemma rowsAt_new [simp]: "rowsAt p (map2 (chunkRow p fh t) K vs) = map2 (chunkRow p fh t) K vs"
  unfolding rowsAt_def by (rule filter_True) (auto simp: set_zip)

lemma rowsElsewhere_new [simp]: "rowsElsewhere p (map2 (chunkRow p fh t) K vs) = []"
  unfolding rowsElsewhere_def by (rule filter_False) (auto simp: set_zip)

lemma rowsAt_append [simp]: "rowsAt p (a @ b) = rowsAt p a @ rowsAt p b"
  by (simp add: rowsAt_def)

lemma rowsElsewhere_append [simp]: "rowsElsewhere p (a @ b) = rowsElsewhere p a @ rowsElsewhere p b"
  by (simp add: rowsElsewhere_def)

lemma rowsElsewhere_none: "rowsAt p t = [] \<Longrightarrow> rowsElsewhere p t = t"
  by (induction t) (auto simp: rowsAt_def rowsElsewhere_def split: if_splits)

lemma take_map2: "take j (map2 f xs ys) = map2 f (take j xs) (take j ys)"
  by (simp add: take_map take_zip)

lemma keys_new:
  "map (\<lambda>r. (file_path r, chunk_index r)) (map2 (chunkRow p fh t) K vs) =
     map (\<lambda>c. (p, index c)) (take (length vs) K)"
proof (induction K arbitrary: vs)
  case Nil
  then show ?case by simp
next
  case (Cons c K)
  then show ?case by (cases vs) simp_all
qed

lemma uniqueKeys_new:
  assumes u: "uniqueKeys t" and d: "distinct (map index K)"
  shows "uniqueKeys (rowsElsewhere p t @ map2 (chunkRow p fh ft) K vs)"
proof -
  have a: "distinct (map (\<lambda>r. (file_path r, chunk_index r)) (rowsElsewhere p t))"
    using u unfolding uniqueKeys_def rowsElsewhere_def by (rule distinct_map_filter)
  have "distinct (map index (take (length vs) K))"
    using d by (simp add: take_map[symmetric] distinct_take del: take_map)
  then have b: "distinct (map (\<lambda>c. (p, index c)) (take (length vs) K))"
    by (simp add: distinct_map inj_on_def)
  have c: "set (map (\<lambda>r. (file_path r, chunk_index r)) (rowsElsewhere p t)) \<inter>
           set (map (\<lambda>c. (p, index c)) (take (length vs) K)) = {}"
    by (auto simp: rowsElsewhere_def)
  have "map (\<lambda>r. (file_path r, chunk_index r)) (rowsElsewhere p t @ map2 (chunkRow p fh ft) K vs) =
        map (\<lambda>r. (file_path r, chunk_index r)) (rowsElsewhere p t) @
        map (\<lambda>c. (p, index c)) (take (length vs) K)"
    by (simp only: map_append keys_new)
  then show ?thesis
    unfolding uniqueKeys_def using a b c by (simp only: distinct_append) 
qed

lemma md_loop_indexes:
  "map index (chunkMarkdown_loop sha parts sec cc i) =
     [i ..< i + length (chunkMarkdown_loop sha parts sec cc i)]"
proof (induction parts arbitrary: sec cc i)
  case Nil
  then show ?case by simp
next
  case (Cons part parts)
  have up: "[i ..< i + Suc n] = i # [i + 1 ..< i + 1 + n]" for n
    by (simp add: upt_conv_Cons)
  show ?case
    using Cons.IH[of "trim (stripHeadingMarker part)" cc i]
      Cons.IH[of sec "drop (length (cc @ part) - OVERLAP_SIZE) (cc @ part)" "i + 1"]
      Cons.IH[of sec "cc @ part" i] up
    by (simp add: Let_def del: upt_Suc)
qed

lemma chunkDocument_indexes:
  "map index (chunkDocument sha p doc ft) = [0 ..< length (chunkDocument sha p doc ft)]"
  using md_loop_indexes[of sha "splitHeadings True [] doc" "[]" "[]" 0]
    loop_indexes[of sha doc 0 0]
  by (simp add: chunkDocument_def chunkMarkdown_def chunkTypeScript_def chunkPlainText_def)

lemma kept_indexes_distinct: "distinct (map index (kept (chunkDocument sha p doc ft)))"
proof -
  have "distinct (map index (chunkDocument sha p doc ft))"
    by (simp add: chunkDocument_indexes)
  then show ?thesis unfolding kept_def by (rule distinct_map_filter)
qed

lemma uniqueKeys_Elsewhere: "uniqueKeys t \<Longrightarrow> uniqueKeys (rowsElsewhere p t)"
  unfolding uniqueKeys_def rowsElsewhere_def by (rule distinct_map_filter)

lemma growth_all: "(\<And>j. j \<le> length rows \<Longrightarrow> P (t @ take j rows)) \<Longrightarrow> list_all P (growth t rows)"
  by (auto simp: growth_def list_all_iff)

lemma uniqueKeys_prefix: "uniqueKeys (a @ b) \<Longrightarrow> uniqueKeys (a @ take j b)"
proof -
  assume u: "uniqueKeys (a @ b)"
  have "a @ take j b = take (length a + j) (a @ b)" by simp
  then have "map (\<lambda>r. (file_path r, chunk_index r)) (a @ take j b) =
        take (length a + j) (map (\<lambda>r. (file_path r, chunk_index r)) (a @ b))"
    by (simp only: take_map)
  then show ?thesis using u unfolding uniqueKeys_def by (simp only: distinct_take)
qed

lemma syncFile_unchanged_world:
  assumes "syncFile E p force w = (res, w')"
    and "readFile E p = None \<or> \<not> storage E \<or>
         (\<exists>doc. readFile E p = Some doc \<and> \<not> force \<and>
            storedFingerprint p w = Some (hashFile (sha256 E) doc))"
  shows "w' = w"
proof (cases "readFile E p")
  case None
  with assms(1) show ?thesis by (simp add: syncFile_def)
next
  case (Some doc)
  show ?thesis
  proof (cases "storage E")
    case False
    with assms(1) Some show ?thesis by (simp add: syncFile_def Let_def)
  next
    case True
    with assms(2) Some have "\<not> force" "storedFingerprint p w = Some (hashFile (sha256 E) doc)"
      by auto
    from syncFile_skip[OF Some True this] assms(1) show ?thesis by simp
  qed
qed

subsection \<open>The work of a sync that is not skipped\<close>




subsection \<open>Change check\<close>


subsection \<open>Replacement of the records of a path\<close>

text \<open>
  C2, amended. After a \<open>syncFile\<close> that succeeds without skipping, the records of the path
  are exactly the records of the new chunks that are not oversized (at most 4000
  characters), in chunk order, one vector each; the reported count is their number; the
  records of the other paths are as before. Whatever the outcome of the call, if the pairs
  (file path, chunk index) are unique in the table before, they are unique in the table
  after and in every table committed in between: the records of the path are deleted
  before the new ones are inserted, and the new chunk indexes are distinct.
\<close>

theorem syncFile_replaces_chunks:
  assumes run: "syncFile E p force w = (res, w')"
  shows
    "(\<forall>r doc. res = Inr r \<and> \<not> skipped r \<and> readFile E p = Some doc \<longrightarrow>
        (\<exists>vs. length vs = length (kept (chunkDocument (sha256 E) p doc (getFileType (extname E) p))) \<and>
              rowsAt p (table w') =
                map2 (chunkRow p (hashFile (sha256 E) doc) (getFileType (extname E) p))
                  (kept (chunkDocument (sha256 E) p doc (getFileType (extname E) p))) vs) \<and>
        chunks r = length (kept (chunkDocument (sha256 E) p doc (getFileType (extname E) p))) \<and>
        rowsElsewhere p (table w') = rowsElsewhere p (table w)) \<and>
     (uniqueKeys (table w) \<longrightarrow>
        uniqueKeys (table w') \<and> list_all uniqueKeys (committedSince w w'))"
proof (cases "readFile E p = None \<or> \<not> storage E \<or>
         (\<exists>doc. readFile E p = Some doc \<and> \<not> force \<and>
            storedFingerprint p w = Some (hashFile (sha256 E) doc))")
  case True
  have same: "w' = w" using syncFile_unchanged_world[OF run True] .
  have "\<not> (\<exists>r. res = Inr r \<and> \<not> skipped r)"
  proof (cases "readFile E p")
    case None
    with run show ?thesis by (auto simp: syncFile_def)
  next
    case (Some doc)
    show ?thesis
    proof (cases "storage E")
      case False
      with run Some show ?thesis by (auto simp: syncFile_def Let_def)
    next
      case up: True
      with True Some have "\<not> force" "storedFingerprint p w = Some (hashFile (sha256 E) doc)"
        by auto
      from syncFile_skip[OF Some up this] run show ?thesis by auto
    qed
  qed
  then show ?thesis using same by (auto simp: committedSince_def)
next
  case False
  then obtain doc where rd: "readFile E p = Some doc" and up: "storage E"
    and ch: "\<not> (\<not> force \<and> storedFingerprint p w = Some (hashFile (sha256 E) doc))"
    by auto
  define K where "K = kept (chunkDocument (sha256 E) p doc (getFileType (extname E) p))"
  define mk where "mk = chunkRow p (hashFile (sha256 E) doc) (getFileType (extname E) p)"
  define D where "D = rowsElsewhere p (table w)"
  from syncFile_effect[OF rd up ch run] obtain vs where vs:
    "length vs \<le> length K"
    "table w' = D @ map2 mk K vs"
    "commits w' = commits w @ D # growth D (map2 mk K vs)"
    "\<forall>r. res = Inr r \<longrightarrow> length vs = length K \<and> r = \<lparr>chunks = length K, skipped = False\<rparr>"
    unfolding K_def mk_def D_def by blast
  have at: "rowsAt p (table w') = map2 mk K vs"
    and el: "rowsElsewhere p (table w') = rowsElsewhere p (table w)"
    by (simp_all add: vs(2) D_def mk_def)
  have first: "\<forall>r doc'. res = Inr r \<and> \<not> skipped r \<and> readFile E p = Some doc' \<longrightarrow>
        (\<exists>vs. length vs = length (kept (chunkDocument (sha256 E) p doc' (getFileType (extname E) p))) \<and>
              rowsAt p (table w') =
                map2 (chunkRow p (hashFile (sha256 E) doc') (getFileType (extname E) p))
                  (kept (chunkDocument (sha256 E) p doc' (getFileType (extname E) p))) vs) \<and>
        chunks r = length (kept (chunkDocument (sha256 E) p doc' (getFileType (extname E) p))) \<and>
        rowsElsewhere p (table w') = rowsElsewhere p (table w)"
  proof (intro allI impI)
    fix r doc'
    assume a: "res = Inr r \<and> \<not> skipped r \<and> readFile E p = Some doc'"
    then have d: "doc' = doc" using rd by simp
    from a vs(4) have l: "length vs = length K" and r: "r = \<lparr>chunks = length K, skipped = False\<rparr>"
      by auto
    show "(\<exists>vs. length vs = length (kept (chunkDocument (sha256 E) p doc' (getFileType (extname E) p))) \<and>
              rowsAt p (table w') =
                map2 (chunkRow p (hashFile (sha256 E) doc') (getFileType (extname E) p))
                  (kept (chunkDocument (sha256 E) p doc' (getFileType (extname E) p))) vs) \<and>
        chunks r = length (kept (chunkDocument (sha256 E) p doc' (getFileType (extname E) p))) \<and>
        rowsElsewhere p (table w') = rowsElsewhere p (table w)"
      unfolding d using l r at el unfolding K_def mk_def by auto
  qed
  have second: "uniqueKeys (table w') \<and> list_all uniqueKeys (committedSince w w')"
    if u: "uniqueKeys (table w)"
  proof -
    have all: "uniqueKeys (D @ map2 mk K vs)"
      unfolding D_def mk_def K_def using u kept_indexes_distinct by (rule uniqueKeys_new)
    have "uniqueKeys D" unfolding D_def using u by (rule uniqueKeys_Elsewhere)
    moreover have "list_all uniqueKeys (growth D (map2 mk K vs))"
      using all by (intro growth_all uniqueKeys_prefix)
    ultimately show ?thesis using all by (simp add: committedSince_def vs(2,3))
  qed
  show ?thesis using first second by blast
qed

section \<open>Evaluating the chunkers on texts given in parts\<close>

lemma chunkPlainText_empty: "chunkPlainText sha [] = []"
  by (simp add: chunkPlainText_def loop_done)

lemma chunkPlainText_short:
  "doc \<noteq> [] \<Longrightarrow> length doc \<le> OVERLAP_SIZE \<Longrightarrow> chunkPlainText sha doc = [createChunk sha doc 0 None]"
  using loop_unfold[of 0 doc sha 0] overlap_lt_max
  by (simp add: chunkPlainText_def slice_def)

lemmas run_simps =
  syncFile_def exampleEnv_def emptyWorld_def oldRow_def getFileType_def hashFile_def
  sql_select_file_hash_def sql_delete_def sql_insert_def getEmbedding_def ok_def
  chunkDocument_def chunkTypeScript_def oversized_def chunkRow_def rowsAt_def
  storedFingerprint_def OVERLAP_SIZE_def Let_def

lemma matchHeadingLine_other: "c \<noteq> CHR ''#'' \<Longrightarrow> matchHeadingLine (c # cs) = None"
  by (simp add: matchHeadingLine_def)

lemma splitHeadings_no_hash:
  "CHR ''#'' \<notin> set s \<Longrightarrow> s \<noteq> [] \<Longrightarrow>
   splitHeadings bol piece (s @ rest) =
     splitHeadings (isLineTerminator (last s)) (rev s @ piece) rest"
proof (induction s arbitrary: bol piece)
  case Nil
  then show ?case by simp
next
  case (Cons c s)
  then have c: "c \<noteq> CHR ''#''" by auto
  have step: "splitHeadings bol piece ((c # s) @ rest) =
              splitHeadings (isLineTerminator c) (c # piece) (s @ rest)"
    using c by (simp add: matchHeadingLine_other)
  show ?case
  proof (cases "s = []")
    case True
    then show ?thesis using step by simp
  next
    case False
    then show ?thesis
      using step Cons.IH[OF _ False, of "isLineTerminator c" "c # piece"] Cons.prems by simp
  qed
qed

lemma trim_solid:
  "s \<noteq> [] \<Longrightarrow> \<not> isWhiteSpace (hd s) \<Longrightarrow> \<not> isWhiteSpace (last s) \<Longrightarrow> trim s = s"
proof -
  assume s: "s \<noteq> []" and h: "\<not> isWhiteSpace (hd s)" and l: "\<not> isWhiteSpace (last s)"
  have "dropWhile isWhiteSpace s = s" using s h by (cases s) auto
  moreover have "dropWhile isWhiteSpace (rev s) = rev s"
    using s l by (cases "rev s") (auto simp: last_rev[symmetric] hd_rev)
  ultimately show ?thesis by (simp add: trim_def)
qed

lemma trim_lines:
  "s \<noteq> [] \<Longrightarrow> \<not> isWhiteSpace (hd s) \<Longrightarrow> \<not> isWhiteSpace (last s) \<Longrightarrow>
   trim (CHR 0x0A # s @ [CHR 0x0A]) = s"
proof -
  assume s: "s \<noteq> []" and h: "\<not> isWhiteSpace (hd s)" and l: "\<not> isWhiteSpace (last s)"
  have a: "dropWhile isWhiteSpace (CHR 0x0A # s @ [CHR 0x0A]) = s @ [CHR 0x0A]"
    using s h by (cases s) (auto simp: isWhiteSpace_def)
  have "dropWhile isWhiteSpace (rev s) = rev s"
    using s l by (cases "rev s") (auto simp: last_rev[symmetric] hd_rev)
  then have b: "dropWhile isWhiteSpace (rev (s @ [CHR 0x0A])) = rev s"
    by (simp add: isWhiteSpace_def)
  show ?thesis unfolding trim_def a b by simp
qed

lemma twoSections_split:
  assumes b1: "plainBody b1" and b2: "plainBody b2"
  shows "splitHeadings True [] (twoSections b1 b2) =
     [[], ''## Setup'', CHR 0x0A # b1 @ [CHR 0x0A], ''## Usage'', CHR 0x0A # b2]"
proof -
  let ?tail2 = "CHR 0x0A # b2"
  let ?tail1 = "CHR 0x0A # b1 @ CHR 0x0A # ''## Usage'' @ ?tail2"
  have ne: "b1 \<noteq> []" "b2 \<noteq> []" and nh: "CHR ''#'' \<notin> set b1" "CHR ''#'' \<notin> set b2"
    using b1 b2 by (simp_all add: plainBody_def)
  have m1: "matchHeadingLine (''## Setup'' @ ?tail1) = Some 8"
    by (simp add: matchHeadingLine_def isWhiteSpace_def isLineTerminator_def)
  have m2: "matchHeadingLine (''## Usage'' @ ?tail2) = Some 8"
    by (simp add: matchHeadingLine_def isWhiteSpace_def isLineTerminator_def)
  have r2: "splitHeadings True [CHR 0x0A] b2 = [CHR 0x0A # b2]"
    using splitHeadings_no_hash[OF nh(2) ne(2), of True "[CHR 0x0A]" "[]"] by simp
  have s3: "splitHeadings False [] ?tail2 = [?tail2]"
    using r2 by (simp add: isLineTerminator_def)
  have s2: "splitHeadings True (CHR 0x0A # rev b1 @ [CHR 0x0A]) (''## Usage'' @ ?tail2) =
        [CHR 0x0A # b1 @ [CHR 0x0A], ''## Usage'', ?tail2]"
    using m2 s3 by simp
  have r1: "splitHeadings True [CHR 0x0A] (b1 @ CHR 0x0A # ''## Usage'' @ ?tail2) =
            splitHeadings True (CHR 0x0A # rev b1 @ [CHR 0x0A]) (''## Usage'' @ ?tail2)"
    using splitHeadings_no_hash[OF nh(1) ne(1), of True "[CHR 0x0A]" "CHR 0x0A # ''## Usage'' @ ?tail2"]
    by (simp add: matchHeadingLine_other isLineTerminator_def)
  have s1: "splitHeadings False [] ?tail1 = [CHR 0x0A # b1 @ [CHR 0x0A], ''## Usage'', ?tail2]"
    using r1 s2 by (simp add: isLineTerminator_def)
  show ?thesis
    unfolding twoSections_def using m1 s1 by simp
qed

lemma twoSections_chunks:
  assumes b1: "plainBody b1" and b2: "plainBody b2"
    and l1: "length b1 = 1500" and l2: "length b2 = 200"
  shows "chunkMarkdown sha (twoSections b1 b2) =
     [createChunk sha b1 0 (Some ''Setup''),
      createChunk sha (trim (drop 1401 b1 @ [CHR 0x0A, CHR 0x0A] @ b2)) 1 (Some ''Usage'')]"
proof -
  have ne: "b1 \<noteq> []" "b2 \<noteq> []"
    and solid: "\<not> isWhiteSpace (hd b1)" "\<not> isWhiteSpace (last b1)" "\<not> isWhiteSpace (last b2)"
    using b1 b2 by (auto simp: plainBody_def)
  have h: "isHeading ''## Setup''" "isHeading ''## Usage''" "\<not> isHeading []"
    "\<not> isHeading (CHR 0x0A # b1 @ [CHR 0x0A])"
    "\<not> isHeading (CHR 0x0A # b2)"
    by (simp_all add: isHeading_def isWhiteSpace_def)
  have l: "trim (stripHeadingMarker ''## Setup'') = ''Setup''"
    "trim (stripHeadingMarker ''## Usage'') = ''Usage''"
    by (simp_all add: stripHeadingMarker_def trim_def isWhiteSpace_def)
  have t1: "trim (CHR 0x0A # b1 @ [CHR 0x0A]) = b1"
    using ne(1) solid(1,2) by (rule trim_lines)
  have last: "trim (drop 1401 b1 @ CHR 0x0A # CHR 0x0A # b2) \<noteq> []"
  proof -
    have "dropWhile isWhiteSpace (drop 1401 b1 @ CHR 0x0A # CHR 0x0A # b2) \<noteq> []"
      using ne(2) solid(3) by (auto simp: dropWhile_eq_Nil_conv dest: last_in_set)
    moreover have "last (dropWhile isWhiteSpace (drop 1401 b1 @ CHR 0x0A # CHR 0x0A # b2)) = last b2"
      using calculation ne(2)
      by (metis append_is_Nil_conv last_append last_ConsR list.distinct(1) takeWhile_dropWhile_id)
    ultimately show ?thesis
      using solid(3) unfolding trim_def
      by (metis (no_types, lifting) Nil_is_rev_conv dropWhile_eq_Nil_conv hd_rev set_rev hd_in_set rev_is_Nil_conv)
  qed
  show ?thesis
    using last
    by (simp add: chunkMarkdown_def twoSections_split[OF b1 b2] h l t1 l1 l2
          MAX_CHUNK_SIZE_def OVERLAP_SIZE_def)
qed

lemma split_big: "splitHeadings True [] (replicate 4001 CHR ''a'') = [replicate 4001 CHR ''a'']"
  using splitHeadings_no_hash[of "replicate 4001 CHR ''a''" True "[]" "[]"]
  by (simp add: isLineTerminator_def)

lemma md_big:
  "chunkMarkdown sha (replicate 4001 CHR ''a'') =
     [createChunk sha (replicate 4001 CHR ''a'') 0 (Some []),
      createChunk sha (replicate 100 CHR ''a'') 1 (Some [])]"
  by (simp add: chunkMarkdown_def split_big isHeading_def takeWhile_replicate trim_solid
       isWhiteSpace_def MAX_CHUNK_SIZE_def OVERLAP_SIZE_def)

lemma plainBody_replicate: "0 < n \<Longrightarrow> c \<noteq> CHR ''#'' \<Longrightarrow> \<not> isWhiteSpace c \<Longrightarrow> plainBody (replicate n c)"
  by (simp add: plainBody_def hd_replicate last_replicate)

section \<open>The example scenario for Markdown\<close>

text \<open>
  What \<open>chunkDocument\<close> returns for two \<open>##\<close> sections with plain bodies of 1500 and 200
  characters, whatever the bodies: two chunks, the whole first body under the first
  heading, and under the second heading the trimmed text made of the last 99 characters of
  the first body, two line breaks and the second body.
\<close>

lemma twoSections_document:
  assumes "plainBody b1" and "plainBody b2" and "length b1 = 1500" and "length b2 = 200"
  shows "chunkDocument sha p (twoSections b1 b2) Md =
           [createChunk sha b1 0 (Some ''Setup''),
            createChunk sha (trim (drop 1401 b1 @ [CHR 0x0A, CHR 0x0A] @ b2)) 1 (Some ''Usage'')] \<and>
         length (trim (drop 1401 b1 @ [CHR 0x0A, CHR 0x0A] @ b2)) \<le> 301"
proof -
  have "length (trim s) \<le> length s" for s
    unfolding trim_def
    by (metis length_rev length_dropWhile_le le_trans)
  from this[of "drop 1401 b1 @ [CHR 0x0A, CHR 0x0A] @ b2"]
  have "length (trim (drop 1401 b1 @ [CHR 0x0A, CHR 0x0A] @ b2)) \<le> 301"
    using assms(3,4) by simp
  then show ?thesis
    using twoSections_chunks[OF assms] by (simp add: chunkDocument_def)
qed

text \<open>
  C7. For two \<open>##\<close> sections with bodies of 1500 and 200 characters three chunks are
  claimed: the first section cut into about 1024 and about 576 characters, the second
  section in one chunk, each under its own heading. The code returns two chunks. Chunk 0 is
  the whole first body, 1500 characters, more than \<open>MAX_CHUNK_SIZE\<close>, the maximum chunk size
  of 1024 characters; chunk 1, under the second heading, starts with the last 99 characters
  of the first section. The fixed-window chunker cuts the same 1500 characters into windows
  of 1024 and 576 characters, followed by the overlap alone.
\<close>

theorem markdown_section_exceeds_max_chunk:
  "map (\<lambda>c. (index c, section' c, content c))
     (chunkDocument (\<lambda>s. s) ''README.md''
        (twoSections (replicate 1500 CHR ''a'') (replicate 200 CHR ''b'')) Md) =
     [(0, Some ''Setup'', replicate 1500 CHR ''a''),
      (1, Some ''Usage'', replicate 99 CHR ''a'' @ [CHR 0x0A, CHR 0x0A] @ replicate 200 CHR ''b'')] \<and>
   MAX_CHUNK_SIZE = 1024 \<and>
   map (\<lambda>c. (index c, length (content c)))
     (chunkDocument (\<lambda>s. s) ''body.ts'' (replicate 1500 CHR ''a'') Ts) =
     [(0, 1024), (1, 576), (2, 100)]"
proof -
  have b: "plainBody (replicate 1500 CHR ''a'')" "plainBody (replicate 200 CHR ''b'')"
    by (simp_all add: plainBody_replicate isWhiteSpace_def)
  have t: "trim (replicate 99 CHR ''a'' @ CHR 0x0A # CHR 0x0A # replicate 200 CHR ''b'') =
           replicate 99 CHR ''a'' @ CHR 0x0A # CHR 0x0A # replicate 200 CHR ''b''"
    by (rule trim_solid) (simp_all add: isWhiteSpace_def hd_append)
  have md: "map (\<lambda>c. (index c, section' c, content c))
     (chunkDocument (\<lambda>s. s) ''README.md''
        (twoSections (replicate 1500 CHR ''a'') (replicate 200 CHR ''b'')) Md) =
     [(0, Some ''Setup'', replicate 1500 CHR ''a''),
      (1, Some ''Usage'', replicate 99 CHR ''a'' @ [CHR 0x0A, CHR 0x0A] @ replicate 200 CHR ''b'')]"
    using t by (simp add: chunkDocument_def twoSections_chunks[OF b] createChunk_def)
  have ts: "map (\<lambda>c. (index c, length (content c)))
     (chunkDocument (\<lambda>s. s) ''body.ts'' (replicate 1500 CHR ''a'') Ts) =
     [(0, 1024), (1, 576), (2, 100)]"
    by (simp add: chunkDocument_def chunkTypeScript_def chunkPlainText_def loop_unfold slice_def
          MAX_CHUNK_SIZE_def OVERLAP_SIZE_def numeral_2_eq_2)
  show ?thesis using md ts by (simp add: MAX_CHUNK_SIZE_def)
qed

section \<open>Concrete runs of the write path\<close>


text \<open>
  C2, as stated: after a successful re-sync the store contains exactly the new chunks of
  the path. A Markdown file of 4001 characters without a heading gives the chunks 0 (all
  4001 characters) and 1 (the overlap window); chunk 0 is oversized and is not written. The
  sync succeeds and reports one chunk, and the store holds chunk 1 alone.
\<close>

theorem oversized_chunk_not_stored_counterexample:
  "fst (syncFile (exampleEnv [(''notes.md'', replicate 4001 CHR ''a'')] (\<lambda>n t. Http 200 (Vector [1])))
          ''notes.md'' False (emptyWorld\<lparr>table := [oldRow ''notes.md'' Md ''old'']\<rparr>)) =
     Inr \<lparr>chunks = 1, skipped = False\<rparr> \<and>
   map index (chunkDocument (\<lambda>s. s) ''notes.md'' (replicate 4001 CHR ''a'') Md) = [0, 1] \<and>
   map chunk_index
     (rowsAt ''notes.md''
        (table (snd (syncFile
           (exampleEnv [(''notes.md'', replicate 4001 CHR ''a'')] (\<lambda>n t. Http 200 (Vector [1])))
           ''notes.md'' False (emptyWorld\<lparr>table := [oldRow ''notes.md'' Md ''old'']\<rparr>))))) = [1]"
proof -
  have "''old'' \<noteq> replicate 4001 CHR ''a''"
    by (auto dest: arg_cong[where f = length])
  then show ?thesis by (simp add: run_simps md_big createChunk_def)
qed

theorem syncFile_replaces_chunks_witness:
  "fst (syncFile (exampleEnv [(''a.ts'', ''hello'')] (\<lambda>n t. Http 200 (Vector [1]))) ''a.ts'' False
      (emptyWorld\<lparr>table := [oldRow ''a.ts'' Ts ''old'', (oldRow ''a.ts'' Ts ''old'')\<lparr>chunk_index := 1\<rparr>, oldRow ''b.ts'' Ts ''other'']\<rparr>)) =
     Inr \<lparr>chunks = 1, skipped = False\<rparr> \<and>
   readFile (exampleEnv [(''a.ts'', ''hello'')] (\<lambda>n t. Http 200 (Vector [1]))) ''a.ts'' = Some ''hello'' \<and>
   uniqueKeys [oldRow ''a.ts'' Ts ''old'', (oldRow ''a.ts'' Ts ''old'')\<lparr>chunk_index := 1\<rparr>, oldRow ''b.ts'' Ts ''other''] \<and>
   map row_content (rowsAt ''a.ts'' (table (snd (syncFile
      (exampleEnv [(''a.ts'', ''hello'')] (\<lambda>n t. Http 200 (Vector [1]))) ''a.ts'' False
      (emptyWorld\<lparr>table := [oldRow ''a.ts'' Ts ''old'', (oldRow ''a.ts'' Ts ''old'')\<lparr>chunk_index := 1\<rparr>, oldRow ''b.ts'' Ts ''other'']\<rparr>))))) = [''hello''] \<and>
   rowsElsewhere ''a.ts'' (table (snd (syncFile
      (exampleEnv [(''a.ts'', ''hello'')] (\<lambda>n t. Http 200 (Vector [1]))) ''a.ts'' False
      (emptyWorld\<lparr>table := [oldRow ''a.ts'' Ts ''old'', (oldRow ''a.ts'' Ts ''old'')\<lparr>chunk_index := 1\<rparr>, oldRow ''b.ts'' Ts ''other'']\<rparr>)))) =
     [oldRow ''b.ts'' Ts ''other''] \<and>
   uniqueKeys (table (snd (syncFile
      (exampleEnv [(''a.ts'', ''hello'')] (\<lambda>n t. Http 200 (Vector [1]))) ''a.ts'' False
      (emptyWorld\<lparr>table := [oldRow ''a.ts'' Ts ''old'', (oldRow ''a.ts'' Ts ''old'')\<lparr>chunk_index := 1\<rparr>, oldRow ''b.ts'' Ts ''other'']\<rparr>))))"
proof -
  let ?E = "exampleEnv [(''a.ts'', ''hello'')] (\<lambda>n t. Http 200 (Vector [1]))"
  let ?w = "emptyWorld\<lparr>table := [oldRow ''a.ts'' Ts ''old'', (oldRow ''a.ts'' Ts ''old'')\<lparr>chunk_index := 1\<rparr>, oldRow ''b.ts'' Ts ''other'']\<rparr>"
  have run: "syncFile ?E ''a.ts'' False ?w = (fst (syncFile ?E ''a.ts'' False ?w), snd (syncFile ?E ''a.ts'' False ?w))"
    by simp
  have r: "fst (syncFile ?E ''a.ts'' False ?w) = Inr \<lparr>chunks = 1, skipped = False\<rparr>"
    by (simp add: run_simps chunkPlainText_short)
  have rd: "readFile ?E ''a.ts'' = Some ''hello''" by (simp add: exampleEnv_def)
  have u: "uniqueKeys (table ?w)" by (simp add: uniqueKeys_def run_simps)
  have k: "kept (chunkDocument (sha256 ?E) ''a.ts'' ''hello'' (getFileType (extname ?E) ''a.ts'')) =
           [createChunk (\<lambda>s. s) ''hello'' 0 None]"
    by (simp add: kept_def run_simps chunkPlainText_short createChunk_def)
  have e: "rowsElsewhere ''a.ts'' (table ?w) = [oldRow ''b.ts'' Ts ''other'']"
    by (simp add: rowsElsewhere_def run_simps)
  have pre: "fst (syncFile ?E ''a.ts'' False ?w) = Inr \<lparr>chunks = 1, skipped = False\<rparr> \<and>
             \<not> skipped \<lparr>chunks = 1, skipped = False\<rparr> \<and> readFile ?E ''a.ts'' = Some ''hello''"
    using r rd by simp
  note first = syncFile_replaces_chunks[OF run, THEN conjunct1, rule_format, OF pre]
  note second = syncFile_replaces_chunks[OF run, THEN conjunct2, rule_format, OF u]
  have el: "rowsElsewhere ''a.ts'' (table (snd (syncFile ?E ''a.ts'' False ?w))) = rowsElsewhere ''a.ts'' (table ?w)"
    using first by blast
  have un: "uniqueKeys (table (snd (syncFile ?E ''a.ts'' False ?w)))"
    using second by blast
  from first obtain vs where "length vs = length [createChunk (\<lambda>s. s) ''hello'' 0 None]"
     "rowsAt ''a.ts'' (table (snd (syncFile ?E ''a.ts'' False ?w))) =
        map2 (chunkRow ''a.ts'' (hashFile (sha256 ?E) ''hello'') (getFileType (extname ?E) ''a.ts''))
          [createChunk (\<lambda>s. s) ''hello'' 0 None] vs"
    unfolding k by blast
  then have c: "map row_content (rowsAt ''a.ts'' (table (snd (syncFile ?E ''a.ts'' False ?w)))) = [''hello'']"
    by (cases vs) (simp_all add: chunkRow_def createChunk_def)
  show ?thesis using r rd u c el e un by simp
qed

subsection \<open>A failure after the change check\<close>

text \<open>
  C3, as stated: when processing fails after the change check, the chunks stored before
  are left in place. Here the embedding service is unreachable: the call fails, and the
  record that the path had is gone.
\<close>

theorem failed_sync_loses_old_chunks_counterexample:
  "fst (syncFile (exampleEnv [(''a.ts'', ''new text'')] (\<lambda>n t. Unreachable)) ''a.ts'' False
      (emptyWorld\<lparr>table := [oldRow ''a.ts'' Ts ''old text'']\<rparr>)) = Inl TransportError \<and>
   rowsAt ''a.ts'' (table (emptyWorld\<lparr>table := [oldRow ''a.ts'' Ts ''old text'']\<rparr>)) =
     [oldRow ''a.ts'' Ts ''old text''] \<and>
   rowsAt ''a.ts'' (table (snd (syncFile (exampleEnv [(''a.ts'', ''new text'')] (\<lambda>n t. Unreachable)) ''a.ts'' False
      (emptyWorld\<lparr>table := [oldRow ''a.ts'' Ts ''old text'']\<rparr>)))) = []"
  by (simp add: run_simps chunkPlainText_short)

text \<open>
  C3, amended. \<open>syncFile\<close> is not atomic per file. When the file is read, the store
  answers and the call fails, the failure came from embedding or inserting a chunk; the
  records that the path had before the call are deleted by then, and the path is left with
  the records of the first new chunks, those inserted before the failure, fewer than the
  chunks to write. The records of the other paths are as before. Every table committed
  during the call holds, for the path, only a starting segment of these new records (none
  right after the deletion), and for the other paths what was there before: no table
  holds records of the earlier indexing next to new ones.
\<close>

theorem syncFile_failure_leaves_prefix:
  assumes rd: "readFile E p = Some doc" and up: "storage E"
    and run: "syncFile E p force w = (Inl e, w')"
  shows
    "(\<exists>vs. length vs < length (kept (chunkDocument (sha256 E) p doc (getFileType (extname E) p))) \<and>
          rowsAt p (table w') =
            map2 (chunkRow p (hashFile (sha256 E) doc) (getFileType (extname E) p))
              (kept (chunkDocument (sha256 E) p doc (getFileType (extname E) p))) vs) \<and>
     rowsElsewhere p (table w') = rowsElsewhere p (table w) \<and>
     committedSince w w' \<noteq> [] \<and>
     list_all (\<lambda>t. rowsElsewhere p t = rowsElsewhere p (table w) \<and>
                   (\<exists>j. rowsAt p t = take j (rowsAt p (table w'))))
       (committedSince w w')"
proof -
  have ch: "\<not> (\<not> force \<and> storedFingerprint p w = Some (hashFile (sha256 E) doc))"
  proof
    assume "\<not> force \<and> storedFingerprint p w = Some (hashFile (sha256 E) doc)"
    then have "syncFile E p force w = (Inr \<lparr>chunks = 0, skipped = True\<rparr>, w)"
      using syncFile_skip[OF rd up, of force w] by blast
    with run show False by simp
  qed
  define K where "K = kept (chunkDocument (sha256 E) p doc (getFileType (extname E) p))"
  define mk where "mk = chunkRow p (hashFile (sha256 E) doc) (getFileType (extname E) p)"
  define D where "D = rowsElsewhere p (table w)"
  from syncFile_effect[OF rd up ch run] obtain vs where vs:
    "table w' = D @ map2 mk K vs"
    "commits w' = commits w @ D # growth D (map2 mk K vs)"
    "length vs < length K"
    unfolding K_def mk_def D_def by blast
  have at: "rowsAt p (table w') = map2 mk K vs"
    and el: "rowsElsewhere p (table w') = D"
    by (simp_all add: vs(1) D_def mk_def)
  have snap: "rowsElsewhere p (D @ take j (map2 mk K vs)) = D \<and>
              rowsAt p (D @ take j (map2 mk K vs)) = take j (map2 mk K vs)" for j
    by (simp add: take_map2 D_def mk_def)
  have "list_all (\<lambda>t. rowsElsewhere p t = D \<and> (\<exists>j. rowsAt p t = take j (map2 mk K vs)))
          (growth D (map2 mk K vs))"
    by (rule growth_all) (use snap in blast)
  moreover have "rowsElsewhere p D = D \<and> (\<exists>j. rowsAt p D = take j (map2 mk K vs))"
    by (auto simp: D_def intro: exI[of _ 0])
  ultimately have "list_all (\<lambda>t. rowsElsewhere p t = D \<and> (\<exists>j. rowsAt p t = take j (map2 mk K vs)))
          (committedSince w w')"
    by (simp add: committedSince_def vs(2))
  then show ?thesis
    using vs(3) at el unfolding K_def mk_def D_def
    by (auto simp: committedSince_def vs(2))
qed

theorem syncFile_failure_leaves_prefix_witness:
  "readFile (exampleEnv [(''a.ts'', replicate 1100 CHR ''x'')]
              (\<lambda>n t. if n = 0 then Http 200 (Vector [1]) else Unreachable)) ''a.ts'' =
     Some (replicate 1100 CHR ''x'') \<and>
   storage (exampleEnv [(''a.ts'', replicate 1100 CHR ''x'')]
              (\<lambda>n t. if n = 0 then Http 200 (Vector [1]) else Unreachable)) \<and>
   fst (syncFile (exampleEnv [(''a.ts'', replicate 1100 CHR ''x'')]
              (\<lambda>n t. if n = 0 then Http 200 (Vector [1]) else Unreachable)) ''a.ts'' False
          (emptyWorld\<lparr>table := [oldRow ''a.ts'' Ts ''old text'', oldRow ''b.ts'' Ts ''other'']\<rparr>)) =
     Inl TransportError \<and>
   map (\<lambda>r. (file_path r, chunk_index r, length (row_content r)))
     (table (snd (syncFile (exampleEnv [(''a.ts'', replicate 1100 CHR ''x'')]
              (\<lambda>n t. if n = 0 then Http 200 (Vector [1]) else Unreachable)) ''a.ts'' False
          (emptyWorld\<lparr>table := [oldRow ''a.ts'' Ts ''old text'', oldRow ''b.ts'' Ts ''other'']\<rparr>)))) =
     [(''b.ts'', 0, 5), (''a.ts'', 0, 1024)] \<and>
   length (kept (chunkDocument (\<lambda>s. s) ''a.ts'' (replicate 1100 CHR ''x'') Ts)) = 3 \<and>
   list_all (\<lambda>t. rowsElsewhere ''a.ts'' t = [oldRow ''b.ts'' Ts ''other''] \<and>
                 (\<exists>j. rowsAt ''a.ts'' t = take j (rowsAt ''a.ts''
                    (table (snd (syncFile (exampleEnv [(''a.ts'', replicate 1100 CHR ''x'')]
              (\<lambda>n t. if n = 0 then Http 200 (Vector [1]) else Unreachable)) ''a.ts'' False
          (emptyWorld\<lparr>table := [oldRow ''a.ts'' Ts ''old text'', oldRow ''b.ts'' Ts ''other'']\<rparr>)))))))
     (committedSince (emptyWorld\<lparr>table := [oldRow ''a.ts'' Ts ''old text'', oldRow ''b.ts'' Ts ''other'']\<rparr>)
        (snd (syncFile (exampleEnv [(''a.ts'', replicate 1100 CHR ''x'')]
              (\<lambda>n t. if n = 0 then Http 200 (Vector [1]) else Unreachable)) ''a.ts'' False
          (emptyWorld\<lparr>table := [oldRow ''a.ts'' Ts ''old text'', oldRow ''b.ts'' Ts ''other'']\<rparr>))))"
proof -
  let ?E = "exampleEnv [(''a.ts'', replicate 1100 CHR ''x'')]
              (\<lambda>n t. if n = 0 then Http 200 (Vector [1]) else Unreachable)"
  let ?w = "emptyWorld\<lparr>table := [oldRow ''a.ts'' Ts ''old text'', oldRow ''b.ts'' Ts ''other'']\<rparr>"
  have rd: "readFile ?E ''a.ts'' = Some (replicate 1100 CHR ''x'')" and up: "storage ?E"
    by (simp_all add: exampleEnv_def)
  have ne: "''old text'' \<noteq> replicate 1100 CHR ''x''"
    by (auto dest: arg_cong[where f = length])
  have cs: "chunkPlainText (\<lambda>s. s) (replicate 1100 CHR ''x'') =
      [createChunk (\<lambda>s. s) (replicate 1024 CHR ''x'') 0 None,
       createChunk (\<lambda>s. s) (replicate 176 CHR ''x'') 1 None,
       createChunk (\<lambda>s. s) (replicate 100 CHR ''x'') 2 None]"
    by (simp add: chunkPlainText_def loop_unfold slice_def MAX_CHUNK_SIZE_def OVERLAP_SIZE_def
          numeral_2_eq_2)
  have r: "fst (syncFile ?E ''a.ts'' False ?w) = Inl TransportError"
    using ne by (simp add: run_simps cs createChunk_def)
  have t: "map (\<lambda>r. (file_path r, chunk_index r, length (row_content r)))
             (table (snd (syncFile ?E ''a.ts'' False ?w))) = [(''b.ts'', 0, 5), (''a.ts'', 0, 1024)]"
    using ne by (simp add: run_simps cs createChunk_def)
  have k: "length (kept (chunkDocument (\<lambda>s. s) ''a.ts'' (replicate 1100 CHR ''x'') Ts)) = 3"
    by (simp add: kept_def run_simps cs createChunk_def)
  have e: "rowsElsewhere ''a.ts'' (table ?w) = [oldRow ''b.ts'' Ts ''other'']"
    by (simp add: rowsElsewhere_def run_simps)
  have run: "syncFile ?E ''a.ts'' False ?w = (Inl TransportError, snd (syncFile ?E ''a.ts'' False ?w))"
    using r by (simp add: prod_eq_iff)
  show ?thesis
    using rd up r t k syncFile_failure_leaves_prefix[OF rd up run] unfolding e by simp
qed

subsection \<open>Syncing an unchanged file again\<close>

text \<open>
  C4, as stated: after one successful sync, every further sync of the unchanged file
  without \<open>force\<close> is reported as skipped. The sync of an empty file succeeds and stores no
  record, so no fingerprint is kept for its path, and the next sync runs again: zero chunks,
  not skipped.
\<close>

theorem empty_file_never_skipped_counterexample:
  "fst (syncFile (exampleEnv [(''empty.ts'', [])] (\<lambda>n t. Http 200 (Vector [1]))) ''empty.ts'' False emptyWorld) =
      Inr \<lparr>chunks = 0, skipped = False\<rparr> \<and>
   fst (syncFile (exampleEnv [(''empty.ts'', [])] (\<lambda>n t. Http 200 (Vector [1]))) ''empty.ts'' False
     (snd (syncFile (exampleEnv [(''empty.ts'', [])] (\<lambda>n t. Http 200 (Vector [1]))) ''empty.ts'' False emptyWorld))) =
      Inr \<lparr>chunks = 0, skipped = False\<rparr>"
  by (simp add: run_simps chunkPlainText_empty)

text \<open>
  C4, amended. After a successful sync of a file, a further sync of the same unchanged
  file without \<open>force\<close> succeeds, creates zero chunks, sends no request to the embedding
  service and leaves the table as it is. It reports the file as skipped exactly when the
  first sync left a record for the path, that is when the first sync created at least one
  chunk or was itself a skip; the outside state is then unchanged altogether. The
  conclusion gives back the premise for the next sync, so this holds of every further sync.
\<close>

theorem resync_unchanged_file:
  assumes rd: "readFile E p = Some doc" and up: "storage E"
    and run: "syncFile E p force w = (Inr r1, w1)"
  shows
    "\<exists>w2. syncFile E p False w1 =
            (Inr \<lparr>chunks = 0, skipped = (0 < chunks r1 \<or> skipped r1)\<rparr>, w2) \<and>
          table w2 = table w1 \<and> requests w2 = requests w1 \<and>
          (0 < chunks r1 \<or> skipped r1 \<longrightarrow> w2 = w1) \<and>
          (rowsAt p (table w1) \<noteq> [] \<longleftrightarrow> 0 < chunks r1 \<or> skipped r1)"
proof (cases "\<not> force \<and> storedFingerprint p w = Some (hashFile (sha256 E) doc)")
  case True
  then have first: "r1 = \<lparr>chunks = 0, skipped = True\<rparr>" "w1 = w"
    using syncFile_skip[OF rd up, of force w] run by auto
  have "syncFile E p False w1 = (Inr \<lparr>chunks = 0, skipped = True\<rparr>, w1)"
    using True first syncFile_skip[OF rd up, of False w] by simp
  moreover have "rowsAt p (table w1) \<noteq> []"
    using True first by (auto simp: storedFingerprint_def split: list.splits)
  ultimately show ?thesis using first by simp
next
  case False
  define K where "K = kept (chunkDocument (sha256 E) p doc (getFileType (extname E) p))"
  define mk where "mk = chunkRow p (hashFile (sha256 E) doc) (getFileType (extname E) p)"
  define D where "D = rowsElsewhere p (table w)"
  from syncFile_effect[OF rd up False run] obtain vs where vs:
    "table w1 = D @ map2 mk K vs" "length vs = length K"
    "r1 = \<lparr>chunks = length K, skipped = False\<rparr>"
    unfolding K_def mk_def D_def by blast
  have at: "rowsAt p (table w1) = map2 mk K vs"
    by (simp add: vs(1) D_def mk_def)
  show ?thesis
  proof (cases K)
    case Nil
    then have none: "rowsAt p (table w1) = []" using at by simp
    then have "storedFingerprint p w1 = None" by (simp add: storedFingerprint_def)
    then have "syncFile E p False w1 =
        (case processChunks E p (hashFile (sha256 E) doc) (getFileType (extname E) p)
             (chunkDocument (sha256 E) p doc (getFileType (extname E) p)) 0 (sql_delete p w1) of
          (Inl e, w2) \<Rightarrow> (Inl e, w2)
        | (Inr created, w2) \<Rightarrow> (Inr \<lparr>chunks = created, skipped = False\<rparr>, w2))"
      using syncFile_proceed[OF rd up, of False w1] by simp
    also have "\<dots> = (Inr \<lparr>chunks = 0, skipped = False\<rparr>, sql_delete p w1)"
      using Nil processChunks_none_kept[of "chunkDocument (sha256 E) p doc (getFileType (extname E) p)"]
      by (simp add: K_def)
    finally have "syncFile E p False w1 = (Inr \<lparr>chunks = 0, skipped = False\<rparr>, sql_delete p w1)" .
    moreover have "table (sql_delete p w1) = table w1"
      using rowsElsewhere_none[OF none] by (simp add: sql_delete_def Let_def rowsElsewhere_def)
    moreover have "requests (sql_delete p w1) = requests w1"
      by (simp add: sql_delete_def Let_def)
    ultimately show ?thesis using vs(3) Nil none by simp
  next
    case (Cons c K')
    then obtain v vs' where v: "vs = v # vs'" using vs(2) by (cases vs) auto
    have "rowsAt p (table w1) = mk c v # map2 mk K' vs'" using at Cons v by simp
    then have "storedFingerprint p w1 = Some (hashFile (sha256 E) doc)"
      by (simp add: storedFingerprint_def mk_def)
    then have "syncFile E p False w1 = (Inr \<lparr>chunks = 0, skipped = True\<rparr>, w1)"
      using syncFile_skip[OF rd up, of False w1] by simp
    then show ?thesis using vs(3) Cons at v by simp
  qed
qed

theorem resync_unchanged_file_witness:
  "readFile (exampleEnv [(''a.ts'', ''hello'')] (\<lambda>n t. Http 200 (Vector [1]))) ''a.ts'' = Some ''hello'' \<and>
   storage (exampleEnv [(''a.ts'', ''hello'')] (\<lambda>n t. Http 200 (Vector [1]))) \<and>
   fst (syncFile (exampleEnv [(''a.ts'', ''hello'')] (\<lambda>n t. Http 200 (Vector [1]))) ''a.ts'' False emptyWorld) =
      Inr \<lparr>chunks = 1, skipped = False\<rparr> \<and>
   syncFile (exampleEnv [(''a.ts'', ''hello'')] (\<lambda>n t. Http 200 (Vector [1]))) ''a.ts'' False
     (snd (syncFile (exampleEnv [(''a.ts'', ''hello'')] (\<lambda>n t. Http 200 (Vector [1]))) ''a.ts'' False emptyWorld)) =
      (Inr \<lparr>chunks = 0, skipped = True\<rparr>,
       snd (syncFile (exampleEnv [(''a.ts'', ''hello'')] (\<lambda>n t. Http 200 (Vector [1]))) ''a.ts'' False emptyWorld))"
proof -
  let ?E = "exampleEnv [(''a.ts'', ''hello'')] (\<lambda>n t. Http 200 (Vector [1]))"
  have rd: "readFile ?E ''a.ts'' = Some ''hello''" and up: "storage ?E"
    by (simp_all add: exampleEnv_def)
  have r: "fst (syncFile ?E ''a.ts'' False emptyWorld) = Inr \<lparr>chunks = 1, skipped = False\<rparr>"
    by (simp add: run_simps chunkPlainText_short)
  then have run: "syncFile ?E ''a.ts'' False emptyWorld =
      (Inr \<lparr>chunks = 1, skipped = False\<rparr>, snd (syncFile ?E ''a.ts'' False emptyWorld))"
    by (simp add: prod_eq_iff)
  show ?thesis
    using rd up r resync_unchanged_file[OF rd up run] by auto
qed

section \<open>Properties of the query path\<close>

lemma embed_loop_table:
  "embed_loop service texts acc w = (res, w') \<Longrightarrow> table w' = table w"
proof (induction texts arbitrary: acc w)
  case Nil
  then show ?case by simp
next
  case (Cons prompt texts)
  show ?case
  proof (cases "service (requests w) prompt")
    case Unreachable
    with Cons.prems show ?thesis by (auto simp: Let_def)
  next
    case (Http status b)
    show ?thesis
    proof (cases "ok status")
      case False
      with Cons.prems Http show ?thesis by (auto simp: Let_def)
    next
      case True
      show ?thesis
      proof (cases b)
        case (Vector v)
        with Cons.prems Http True
        have "embed_loop service texts (acc @ [v]) (w\<lparr>requests := requests w + 1\<rparr>) = (res, w')"
          by (simp add: Let_def)
        from Cons.IH[OF this] show ?thesis by simp
      qed (use Cons.prems Http True in \<open>auto simp: Let_def\<close>)
    qed
  qed
qed

lemma embed_table: "embed service texts w = (res, w') \<Longrightarrow> table w' = table w"
  by (cases "embed_loop service texts [] w")
     (auto simp: embed_def split: if_splits sum.splits dest: embed_loop_table)

lemma sql_select_nearest_empty:
  "table w = [] \<Longrightarrow> sql_select_nearest up f q k w = Inr rs \<Longrightarrow> rs = []"
  by (auto simp: sql_select_nearest_def Let_def split: option.splits if_splits)

lemma sql_select_nearest_down: "\<not> up \<Longrightarrow> sql_select_nearest up f q k w = Inl SqlError"
  by (simp add: sql_select_nearest_def Let_def)

text \<open>
  C8. \<open>queryVectorDatabase\<close> returns a list for every query, limit and filter: there is no
  error in its result. The list is empty when the store is empty, when the storage engine
  does not answer, when embedding the query fails, when the limit is negative, and
  whenever the body of its \<open>try\<close> block fails.
\<close>

theorem queryVectorDatabase_degrades_to_empty:
  "(table w = [] \<longrightarrow> fst (queryVectorDatabase E q k f w) = []) \<and>
   (\<not> storage E \<longrightarrow> fst (queryVectorDatabase E q k f w) = []) \<and>
   ((\<exists>e. fst (embed (ollama E) [q] w) = Inl e) \<longrightarrow> fst (queryVectorDatabase E q k f w) = []) \<and>
   (k < 0 \<longrightarrow> fst (queryVectorDatabase E q k f w) = []) \<and>
   ((\<exists>e. fst (queryVectorDatabase_try E q k f w) = Inl e) \<longrightarrow>
      fst (queryVectorDatabase E q k f w) = [])"
proof -
  obtain res w1 where em: "embed (ollama E) [q] w = (res, w1)"
    by (cases "embed (ollama E) [q] w")
  have tw: "table w1 = table w" using embed_table[OF em] .
  show ?thesis
  proof (cases res)
    case (Inl e)
    then show ?thesis using em
      by (simp add: queryVectorDatabase_def queryVectorDatabase_try_def)
  next
    case (Inr vs)
    show ?thesis
    proof (cases vs)
      case Nil
      then show ?thesis using em Inr
        by (simp add: queryVectorDatabase_def queryVectorDatabase_try_def)
    next
      case (Cons qv rest)
      define sel where "sel = (case f of
                        None \<Rightarrow> sql_select_nearest (storage E) None qv k w1
                      | Some ts \<Rightarrow>
                          if length ts > 0
                          then sql_select_nearest (storage E) (Some ts) qv k w1
                          else sql_select_nearest (storage E) None qv k w1)"
      have q: "fst (queryVectorDatabase E q k f w) =
                 (case sel of Inl e \<Rightarrow> [] | Inr results \<Rightarrow> map toResult results)"
        and t: "fst (queryVectorDatabase_try E q k f w) =
                 (case sel of Inl e \<Rightarrow> Inl e | Inr results \<Rightarrow> Inr (map toResult results))"
        using em Inr Cons
        by (auto simp: queryVectorDatabase_def queryVectorDatabase_try_def sel_def
              split: sum.splits option.splits)
      have a: "table w = [] \<Longrightarrow> sel = Inr rs \<Longrightarrow> rs = []" for rs
        using tw sql_select_nearest_empty[of w1 "storage E" _ qv k rs]
        by (auto simp: sel_def split: option.splits if_splits)
      have b: "\<not> storage E \<Longrightarrow> sel = Inl SqlError"
        by (auto simp: sel_def sql_select_nearest_down split: option.splits)
      have c: "k < 0 \<Longrightarrow> \<exists>e. sel = Inl e"
        by (auto simp: sel_def sql_select_nearest_def Let_def split: option.splits)
      show ?thesis
        using a b c em Inr unfolding q t by (cases sel) auto
    qed
  qed
qed

lemmas query_simps =
  queryVectorDatabase_def queryVectorDatabase_try_def embed_def sql_select_nearest_def
  similarityTo_def cosine_distance_def distanceKey_def toResult_def dot_def ok_def
  exampleEnv_def emptyWorld_def oldRow_def chunkRow_def createChunk_def Let_def

theorem queryVectorDatabase_degrades_to_empty_witness:
  "table emptyWorld = [] \<and>
   fst (queryVectorDatabase (exampleEnv [] (\<lambda>n t. Http 200 (Vector [1]))) ''sync'' 10 None emptyWorld) = [] \<and>
   fst (embed (ollama (exampleEnv [] (\<lambda>n t. Unreachable))) [''sync'']
          (emptyWorld\<lparr>table := [oldRow ''a.ts'' Ts ''hello'']\<rparr>)) = Inl TransportError \<and>
   fst (queryVectorDatabase (exampleEnv [] (\<lambda>n t. Unreachable)) ''sync'' 10 None
          (emptyWorld\<lparr>table := [oldRow ''a.ts'' Ts ''hello'']\<rparr>)) = [] \<and>
   \<not> storage ((exampleEnv [] (\<lambda>n t. Http 200 (Vector [1])))\<lparr>storage := False\<rparr>) \<and>
   fst (queryVectorDatabase ((exampleEnv [] (\<lambda>n t. Http 200 (Vector [1])))\<lparr>storage := False\<rparr>)
          ''sync'' 10 None (emptyWorld\<lparr>table := [oldRow ''a.ts'' Ts ''hello'']\<rparr>)) = [] \<and>
   map filePath (fst (queryVectorDatabase (exampleEnv [] (\<lambda>n t. Http 200 (Vector [1]))) ''sync'' 10 None
          (emptyWorld\<lparr>table := [oldRow ''a.ts'' Ts ''hello'']\<rparr>))) = [''a.ts'']"
proof -
  have a: "table emptyWorld = []" by (simp add: emptyWorld_def)
  have b: "fst (embed (ollama (exampleEnv [] (\<lambda>n t. Unreachable))) [''sync'']
          (emptyWorld\<lparr>table := [oldRow ''a.ts'' Ts ''hello'']\<rparr>)) = Inl TransportError"
    by (simp add: query_simps)
  have c: "\<not> storage ((exampleEnv [] (\<lambda>n t. Http 200 (Vector [1])))\<lparr>storage := False\<rparr>)"
    by simp
  have d: "map filePath (fst (queryVectorDatabase (exampleEnv [] (\<lambda>n t. Http 200 (Vector [1]))) ''sync'' 10 None
          (emptyWorld\<lparr>table := [oldRow ''a.ts'' Ts ''hello'']\<rparr>))) = [''a.ts'']"
    by (simp add: query_simps)
  show ?thesis
    using a b c d
      queryVectorDatabase_degrades_to_empty[of emptyWorld
        "exampleEnv [] (\<lambda>n t. Http 200 (Vector [1]))" "''sync''" 10 None]
      queryVectorDatabase_degrades_to_empty[of "emptyWorld\<lparr>table := [oldRow ''a.ts'' Ts ''hello'']\<rparr>"
        "exampleEnv [] (\<lambda>n t. Unreachable)" "''sync''" 10 None]
      queryVectorDatabase_degrades_to_empty[of "emptyWorld\<lparr>table := [oldRow ''a.ts'' Ts ''hello'']\<rparr>"
        "(exampleEnv [] (\<lambda>n t. Http 200 (Vector [1])))\<lparr>storage := False\<rparr>" "''sync''" 10 None]
    by simp
qed

subsection \<open>Range of the similarity\<close>

lemma dot_Nil [simp]: "dot [] b = 0" "dot a [] = 0"
  by (simp_all add: dot_def)

lemma dot_Cons [simp]: "dot (x # a) (y # b) = x * y + dot a b"
  by (simp add: dot_def)

lemma dot_self_nonneg: "0 \<le> dot a a"
  by (induction a) simp_all

lemma cross_term_bound:
  fixes x y A B C :: real
  assumes "C\<^sup>2 \<le> A * B" and "0 \<le> A" and "0 \<le> B"
  shows "2 * (x * y) * C \<le> x\<^sup>2 * B + A * y\<^sup>2"
proof -
  have "(2 * (x * y) * C)\<^sup>2 = 4 * (x\<^sup>2 * y\<^sup>2) * C\<^sup>2"
    by (simp add: power_mult_distrib)
  also have "\<dots> \<le> 4 * (x\<^sup>2 * y\<^sup>2) * (A * B)"
    using assms(1) by (intro mult_left_mono) simp_all
  also have "\<dots> \<le> (x\<^sup>2 * B + A * y\<^sup>2)\<^sup>2"
  proof -
    have "0 \<le> (x\<^sup>2 * B - A * y\<^sup>2)\<^sup>2" by simp
    then show ?thesis by (simp add: power2_eq_square algebra_simps)
  qed
  finally have "(2 * (x * y) * C)\<^sup>2 \<le> (x\<^sup>2 * B + A * y\<^sup>2)\<^sup>2" .
  moreover have "0 \<le> x\<^sup>2 * B + A * y\<^sup>2" using assms(2,3) by simp
  ultimately have "\<bar>2 * (x * y) * C\<bar> \<le> x\<^sup>2 * B + A * y\<^sup>2"
    using power2_le_imp_le by (metis power2_abs)
  then show ?thesis by linarith
qed

lemma dot_squared_le: "(dot a b)\<^sup>2 \<le> dot a a * dot b b"
proof (induction a arbitrary: b)
  case Nil
  then show ?case by simp
next
  case (Cons x a)
  show ?case
  proof (cases b)
    case Nil
    then show ?thesis by simp
  next
    case (Cons y b')
    have ih: "(dot a b')\<^sup>2 \<le> dot a a * dot b' b'" by (rule Cons.IH)
    have cross: "2 * (x * y) * dot a b' \<le> x\<^sup>2 * dot b' b' + dot a a * y\<^sup>2"
      using ih dot_self_nonneg dot_self_nonneg by (rule cross_term_bound)
    have "(x * y + dot a b')\<^sup>2 = (x * y)\<^sup>2 + 2 * (x * y) * dot a b' + (dot a b')\<^sup>2"
      by (simp add: power2_sum)
    also have "\<dots> \<le> (x * y)\<^sup>2 + (x\<^sup>2 * dot b' b' + dot a a * y\<^sup>2) + dot a a * dot b' b'"
      using cross ih by linarith
    also have "\<dots> = (x * x + dot a a) * (y * y + dot b' b')"
      by (simp add: power2_eq_square algebra_simps)
    finally show ?thesis using Cons by simp
  qed
qed

lemma cosine_distance_range:
  assumes "cosine_distance a b = Some d"
  shows "0 \<le> d \<and> d \<le> 2"
proof -
  define n where "n = dot a a * dot b b"
  have nz: "n \<noteq> 0" and d: "d = 1 - dot a b / sqrt n"
    using assms by (auto simp: cosine_distance_def n_def split: if_splits)
  have "0 \<le> n" unfolding n_def by (simp add: dot_self_nonneg)
  with nz have pos: "0 < sqrt n" by simp
  have "\<bar>dot a b\<bar> = sqrt ((dot a b)\<^sup>2)" by simp
  also have "\<dots> \<le> sqrt n" unfolding n_def using dot_squared_le by (simp only: real_sqrt_le_iff)
  finally have "\<bar>dot a b / sqrt n\<bar> \<le> 1" using pos by simp
  then show ?thesis unfolding d by linarith
qed

lemma similarityTo_range: "similarityTo q r = Some s \<Longrightarrow> - 1 \<le> s \<and> s \<le> 1"
  using cosine_distance_range[of "embedding r" q]
  by (auto simp: similarityTo_def)

lemma dot_scale: "dot (map ((*) c) v) v = c * dot v v"
  and dot_scale2: "dot (map ((*) c) v) (map ((*) c) v) = c\<^sup>2 * dot v v"
  by (induction v) (simp_all add: algebra_simps power2_eq_square)

lemma similarityTo_same_direction:
  assumes "0 < c" and "dot q q \<noteq> 0" and "embedding r = map ((*) c) q"
  shows "similarityTo q r = Some 1"
proof -
  have pos: "0 < dot q q" using assms(2) dot_self_nonneg[of q] by linarith
  have "dot (embedding r) (embedding r) * dot q q = (c * dot q q)\<^sup>2"
    by (simp add: assms(3) dot_scale2 power2_eq_square)
  then have root: "sqrt (dot (embedding r) (embedding r) * dot q q) = c * dot q q"
    using assms(1) pos by simp
  have nz: "c * dot q q \<noteq> 0" using assms(1) pos by simp
  have "dot (embedding r) (embedding r) * dot q q \<noteq> 0"
    using nz root by auto
  then have "cosine_distance (embedding r) q = Some (1 - dot (embedding r) q / (c * dot q q))"
    by (simp add: cosine_distance_def root)
  also have "dot (embedding r) q = c * dot q q" by (simp add: assms(3) dot_scale)
  finally show ?thesis using nz by (simp add: similarityTo_def)
qed

lemma sql_select_nearest_rows:
  "sql_select_nearest up f q k w = Inr rs \<Longrightarrow> x \<in> set rs \<Longrightarrow>
     fst x \<in> set (table w) \<and> snd x = similarityTo q (fst x)"
proof -
  assume sel: "sql_select_nearest up f q k w = Inr rs" and x: "x \<in> set rs"
  define cand where "cand = (case f of None \<Rightarrow> table w
                      | Some ts \<Rightarrow> filter (\<lambda>r. file_type r \<in> set ts) (table w))"
  have sub: "set cand \<subseteq> set (table w)" by (auto simp: cand_def split: option.splits)
  have "rs = map (\<lambda>r. (r, similarityTo q r)) (take (nat k) (sort_key (distanceKey q) cand))"
    using sel by (auto simp: sql_select_nearest_def Let_def cand_def split: if_splits)
  with x obtain r where r: "r \<in> set (take (nat k) (sort_key (distanceKey q) cand))"
    and xr: "x = (r, similarityTo q r)" by auto
  from r have "r \<in> set cand" by (auto dest: in_set_takeD)
  with sub xr show ?thesis by auto
qed

text \<open>
  C9, as stated: every result carries a similarity in the interval from 0 to 1. A stored
  vector that points opposite to the query vector gives the similarity \<open>-1\<close>.
\<close>

theorem similarity_below_zero_counterexample:
  "map similarity
     (fst (queryVectorDatabase (exampleEnv [] (\<lambda>n t. Http 200 (Vector [- 1]))) ''sync'' 10 None
             (emptyWorld\<lparr>table := [oldRow ''a.ts'' Ts ''hello'']\<rparr>))) = [Some (- 1)] \<and>
   \<not> (0 \<le> (- 1 :: real))"
  by (simp add: query_simps)

text \<open>
  C9, amended. Every result is made from a record of the table and carries as similarity
  one minus the cosine distance between the record's vector and the query vector. When it
  is a number it lies in the interval from \<open>-1\<close> to \<open>1\<close>, and it is \<open>1\<close> when the stored
  vector has the direction of the query vector (is a positive multiple of it).
\<close>

theorem query_similarity_range:
  assumes "r \<in> set (fst (queryVectorDatabase E q k f w))"
  shows "\<exists>rw \<in> set (table w). \<exists>qv rest.
           fst (embed (ollama E) [q] w) = Inr (qv # rest) \<and>
           r = toResult (rw, similarityTo qv rw) \<and>
           (\<forall>s. similarity r = Some s \<longrightarrow> - 1 \<le> s \<and> s \<le> 1) \<and>
           (\<forall>c. 0 < c \<and> dot qv qv \<noteq> 0 \<and> embedding rw = map ((*) c) qv \<longrightarrow>
                 similarity r = Some 1)"
proof -
  obtain res w1 where em: "embed (ollama E) [q] w = (res, w1)"
    by (cases "embed (ollama E) [q] w")
  have tw: "table w1 = table w" using embed_table[OF em] .
  from assms em obtain qv rest where res: "res = Inr (qv # rest)"
    by (auto simp: queryVectorDatabase_def queryVectorDatabase_try_def
          split: sum.splits list.splits)
  define sel where "sel = (case f of
                        None \<Rightarrow> sql_select_nearest (storage E) None qv k w1
                      | Some ts \<Rightarrow>
                          if length ts > 0
                          then sql_select_nearest (storage E) (Some ts) qv k w1
                          else sql_select_nearest (storage E) None qv k w1)"
  have "fst (queryVectorDatabase E q k f w) =
          (case sel of Inl e \<Rightarrow> [] | Inr results \<Rightarrow> map toResult results)"
    using em res
    by (auto simp: queryVectorDatabase_def queryVectorDatabase_try_def sel_def
          split: sum.splits option.splits)
  with assms obtain rs x where rs: "sel = Inr rs" and x: "x \<in> set rs" and rx: "r = toResult x"
    by (cases sel) auto
  from rs obtain f' where "sql_select_nearest (storage E) f' qv k w1 = Inr rs"
    by (auto simp: sel_def split: option.splits if_splits)
  from sql_select_nearest_rows[OF this x] tw
  have row: "fst x \<in> set (table w)" and sim: "snd x = similarityTo qv (fst x)" by auto
  have rr: "r = toResult (fst x, similarityTo qv (fst x))" using rx sim by (cases x) simp
  have s: "similarity r = similarityTo qv (fst x)" using rr by (simp add: toResult_def)
  show ?thesis
  proof (intro bexI[OF _ row] exI[of _ qv] exI[of _ rest] conjI allI impI)
    show "fst (embed (ollama E) [q] w) = Inr (qv # rest)" using em res by simp
    show "r = toResult (fst x, similarityTo qv (fst x))" by (rule rr)
    show "- 1 \<le> s'" if "similarity r = Some s'" for s'
      using that s similarityTo_range[of qv "fst x" s'] by simp
    show "s' \<le> 1" if "similarity r = Some s'" for s'
      using that s similarityTo_range[of qv "fst x" s'] by simp
    show "similarity r = Some 1"
      if "0 < c \<and> dot qv qv \<noteq> 0 \<and> embedding (fst x) = map ((*) c) qv" for c
      using that s similarityTo_same_direction[of c qv "fst x"] by simp
  qed
qed

theorem query_similarity_range_witness:
  "toResult (oldRow ''a.ts'' Ts ''hello'', Some 1) \<in>
     set (fst (queryVectorDatabase (exampleEnv [] (\<lambda>n t. Http 200 (Vector [1 / 2]))) ''sync'' 10 None
             (emptyWorld\<lparr>table := [oldRow ''a.ts'' Ts ''hello'']\<rparr>))) \<and>
   similarity (toResult (oldRow ''a.ts'' Ts ''hello'', Some 1)) = Some 1 \<and>
   (\<exists>rw \<in> set (table (emptyWorld\<lparr>table := [oldRow ''a.ts'' Ts ''hello'']\<rparr>)). \<exists>qv rest.
      fst (embed (ollama (exampleEnv [] (\<lambda>n t. Http 200 (Vector [1 / 2])))) [''sync'']
             (emptyWorld\<lparr>table := [oldRow ''a.ts'' Ts ''hello'']\<rparr>)) = Inr (qv # rest) \<and>
      toResult (oldRow ''a.ts'' Ts ''hello'', Some 1) = toResult (rw, similarityTo qv rw) \<and>
      (\<forall>s. similarity (toResult (oldRow ''a.ts'' Ts ''hello'', Some 1)) = Some s \<longrightarrow> - 1 \<le> s \<and> s \<le> 1) \<and>
      (\<forall>c. 0 < c \<and> dot qv qv \<noteq> 0 \<and> embedding rw = map ((*) c) qv \<longrightarrow>
            similarity (toResult (oldRow ''a.ts'' Ts ''hello'', Some 1)) = Some 1))"
proof -
  have m: "toResult (oldRow ''a.ts'' Ts ''hello'', Some 1) \<in>
     set (fst (queryVectorDatabase (exampleEnv [] (\<lambda>n t. Http 200 (Vector [1 / 2]))) ''sync'' 10 None
             (emptyWorld\<lparr>table := [oldRow ''a.ts'' Ts ''hello'']\<rparr>)))"
    by (simp add: query_simps real_sqrt_divide)
  have s: "similarity (toResult (oldRow ''a.ts'' Ts ''hello'', Some 1)) = Some 1"
    by (simp add: toResult_def)
  show ?thesis
    using m s query_similarity_range[OF m] by blast
qed

end
